theory Spec2Isabelle
  imports Complex_Main "HOL-Library.Sublist" "HOL-Library.Multiset"
begin

section \<open>Strings and JavaScript values\<close>

text \<open>
  A JavaScript string is a sequence of code units. The model has the strings whose code
  units are below 256: a \<open>char\<close> is the code unit of that number (the Latin-1 range of
  Unicode). Of the white space and line terminators that \<open>trim\<close> strips, these are tab,
  line feed, vertical tab, form feed, carriage return, space and the no-break space
  U+00A0. \<open>toLowerCase\<close> maps the capital letters of the range, \<open>A\<close>..\<open>Z\<close> and U+00C0..U+00DE
  without the multiplication sign U+00D7, to the letter 32 above and leaves every other
  code unit of the range alone.
\<close>

definition isWhiteSpace :: "char \<Rightarrow> bool" where
  "isWhiteSpace c = (of_char c \<in> {9::nat, 10, 11, 12, 13, 32, 160})"

definition trim :: "string \<Rightarrow> string" where
  "trim s = rev (dropWhile isWhiteSpace (rev (dropWhile isWhiteSpace s)))"

definition lowerChar :: "char \<Rightarrow> char" where
  "lowerChar c =
     (let n = (of_char c :: nat) in
      if (65 \<le> n \<and> n \<le> 90) \<or> (192 \<le> n \<and> n \<le> 222 \<and> n \<noteq> 215) then char_of (n + 32) else c)"

definition toLowerCase :: "string \<Rightarrow> string" where
  "toLowerCase s = map lowerChar s"

definition startsWith :: "string \<Rightarrow> string \<Rightarrow> bool" where
  "startsWith s p = prefix p s"

text \<open>\<open>String(n)\<close> of a non-negative integer: its decimal digits.\<close>

definition digitChar :: "nat \<Rightarrow> char" where
  "digitChar d = char_of (48 + d)"

fun decimal :: "nat \<Rightarrow> string" where
  "decimal n = (if n < 10 then [digitChar n] else decimal (n div 10) @ [digitChar (n mod 10)])"

declare decimal.simps [simp del]

text \<open>
  A property that the code reads with \<open>!= null\<close> or by truthiness can be missing from the
  object, hold \<open>null\<close>, or hold a value.
\<close>

datatype 'a js = Undefined | Null | Val 'a

text \<open>
  \<open>resolved\<close> and \<open>duplicateOf\<close> are a string or \<open>null\<close> (\<open>None\<close>). A string is truthy
  when it is not empty.
\<close>

definition truthy :: "string option \<Rightarrow> bool" where
  "truthy v = (case v of None \<Rightarrow> False | Some s \<Rightarrow> s \<noteq> [])"

section \<open>Skippable references: \<open>isSkippableHref\<close>\<close>

definition isSkippableHref :: "string \<Rightarrow> bool" where
  "isSkippableHref href =
     (if href = [] then True
      else let l = toLowerCase (trim href) in
        startsWith l ''javascript:'' \<or>
        startsWith l ''mailto:'' \<or>
        startsWith l ''tel:'' \<or>
        l = ''#'' \<or>
        l = [])"

text \<open>
  The contract in the words of the specification: after trimming white space and
  lower-casing, the reference is empty, exactly \<open>#\<close>, or begins with \<open>javascript:\<close>,
  \<open>mailto:\<close> or \<open>tel:\<close>. It is written without the functions of the code: the white
  space characters and the pairs of capital and small letters are listed, and the
  trimmed reference is what is left of it between a run of white space at its start and
  a run of white space at its end, with no white space at either end of what is left.
\<close>

definition specWhiteSpace :: string where
  "specWhiteSpace = map char_of [9, 10, 11, 12, 13, 32, 160 :: nat]"

definition specCapitals :: string where
  "specCapitals = ''ABCDEFGHIJKLMNOPQRSTUVWXYZ'' @ map char_of ([192..<215] @ [216..<223])"

definition specSmalls :: string where
  "specSmalls = ''abcdefghijklmnopqrstuvwxyz'' @ map char_of ([224..<247] @ [248..<255])"

definition specLowerCased :: "char \<Rightarrow> char" where
  "specLowerCased c = (case map_of (zip specCapitals specSmalls) c of Some l \<Rightarrow> l | None \<Rightarrow> c)"

definition specTrimmed :: "string \<Rightarrow> string \<Rightarrow> bool" where
  "specTrimmed href core =
     (\<exists>pre post. href = pre @ core @ post \<and>
        set pre \<subseteq> set specWhiteSpace \<and> set post \<subseteq> set specWhiteSpace \<and>
        (core = [] \<or> (hd core \<notin> set specWhiteSpace \<and> last core \<notin> set specWhiteSpace)))"

definition skippableBySpec :: "string \<Rightarrow> bool" where
  "skippableBySpec href =
     (\<exists>core. specTrimmed href core \<and>
        (let l = map specLowerCased core in
           l = [] \<or> l = ''#'' \<or> prefix ''javascript:'' l \<or> prefix ''mailto:'' l \<or> prefix ''tel:'' l))"

section \<open>URL resolution: \<open>resolveUrl\<close>\<close>

text \<open>
  \<open>new URL(relative, base).href\<close> is the platform's URL parser. It is a parameter of the
  model: a function from the reference and the base to the absolute URL, or to the
  \<open>TypeError\<close> the constructor throws. \<open>resolveUrl\<close> turns the exception into \<open>null\<close>.
\<close>

datatype url_error = TypeError

type_synonym url_parser = "string \<Rightarrow> string \<Rightarrow> url_error + string"

definition resolveUrl :: "url_parser \<Rightarrow> string \<Rightarrow> string \<Rightarrow> string option" where
  "resolveUrl newURL base relative =
     (case newURL relative base of Inr href \<Rightarrow> Some href | Inl e \<Rightarrow> None)"

section \<open>The resource list\<close>

datatype resource_type = Anchor | Image | Script | Stylesheet | Iframe | MetaRefresh

fun typeName :: "resource_type \<Rightarrow> string" where
  "typeName Anchor = ''anchor''"
| "typeName Image = ''image''"
| "typeName Script = ''script''"
| "typeName Stylesheet = ''stylesheet''"
| "typeName Iframe = ''iframe''"
| "typeName MetaRefresh = ''meta-refresh''"

text \<open>
  An entry of \<open>rawResources\<close>: the reference kind and the attribute's text (the keys
  \<open>text\<close> and \<open>alt\<close> of anchors and images are not read again).
\<close>

record raw_resource =
  raw_type :: resource_type
  raw_raw :: string

text \<open>
  An entry of \<open>resources\<close>. The fields are the object's keys; \<open>rid\<close> is the key \<open>id\<close> and
  \<open>rtype\<close> the key \<open>type\<close>.
\<close>

record resource =
  rid :: string
  rtype :: resource_type
  raw :: string
  resolved :: "string option"
  skippable :: bool
  duplicateOf :: "string option"

text \<open>
  The callback of \<open>rawResources.map\<close> reads and updates the map \<open>seen\<close>, whose keys are
  the values of \<open>resolved\<close> (\<open>null\<close> is a key like any other). The recursion passes the
  map and the index along.
\<close>

definition fallbackKey :: "raw_resource \<Rightarrow> nat \<Rightarrow> string" where
  "fallbackKey r idx = typeName (raw_type r) @ '':'' @ raw_raw r @ '':'' @ decimal idx"

definition resourceKey :: "string option \<Rightarrow> raw_resource \<Rightarrow> nat \<Rightarrow> string" where
  "resourceKey res r idx = (if truthy res then the res else fallbackKey r idx)"

fun resourcesFrom ::
  "url_parser \<Rightarrow> string \<Rightarrow> (string option \<rightharpoonup> string) \<Rightarrow> nat \<Rightarrow> raw_resource list \<Rightarrow> resource list"
where
  "resourcesFrom newURL base seen idx [] = []"
| "resourcesFrom newURL base seen idx (r # rs) =
     (let res = resolveUrl newURL base (raw_raw r);
          skip = isSkippableHref (raw_raw r);
          key = resourceKey res r idx;
          dup = (if seen res \<noteq> None then seen res else None);
          seen' = (if seen res = None then seen(res \<mapsto> key) else seen)
      in \<lparr>rid = key, rtype = raw_type r, raw = raw_raw r, resolved = res,
           skippable = skip, duplicateOf = dup\<rparr>
         # resourcesFrom newURL base seen' (Suc idx) rs)"

definition resources :: "url_parser \<Rightarrow> string \<Rightarrow> raw_resource list \<Rightarrow> resource list" where
  "resources newURL base rawResources = resourcesFrom newURL base Map.empty 0 rawResources"

definition toCheck :: "resource list \<Rightarrow> resource list" where
  "toCheck rs = filter (\<lambda>r. truthy (resolved r) \<and> \<not> skippable r) rs"

definition MAX_CHECK :: nat where
  "MAX_CHECK = 300"

definition toCheckLimited :: "resource list \<Rightarrow> resource list" where
  "toCheckLimited rs = take MAX_CHECK (toCheck rs)"

section \<open>The probe: \<open>fetchWithHeadThenGet\<close>\<close>

text \<open>
  The network and the clock are the environment of a probe. An axios request made at
  clock time \<open>t\<close> settles some milliseconds later: the promise is fulfilled with a
  response (status and headers) or rejected with an error, which has a \<open>response.status\<close>
  when the server answered, a \<open>message\<close>, and a text \<open>String(err)\<close>. \<open>Date.now()\<close> reads
  the clock; \<open>await\<close> advances it by the time the request took. The timeout of 10 s and
  the bound of 5 redirects are options of the request: a request that runs into one of
  them is a rejected request of the network. The URL is passed as \<open>item.resolved\<close> holds
  it, a string or \<open>null\<close>.
\<close>

datatype http_method = HEAD | GET

type_synonym http_headers = "(string \<times> string) list"

record axios_error =
  response_status :: "nat option"
  message :: string
  as_string :: string

datatype axios_result = Resolved nat http_headers | Rejected axios_error

type_synonym network = "http_method \<Rightarrow> string option \<Rightarrow> nat \<Rightarrow> nat \<times> axios_result"

datatype status = Ok | Error | Unresolved | Skipped | Not_checked

text \<open>The object a probe returns; a key the object does not have is \<open>Undefined\<close> or \<open>None\<close>.\<close>

record probe_data =
  p_status :: status
  p_httpStatus :: "nat js"
  p_timeMs :: "nat js"
  p_error :: "string option"
  p_headers :: "http_headers option"

definition errorCode :: "axios_error \<Rightarrow> nat js" where
  "errorCode getErr =
     (case response_status getErr of
        Some s \<Rightarrow> if s \<noteq> 0 then Val s else Null
      | None \<Rightarrow> Null)"

definition errorText :: "axios_error \<Rightarrow> string" where
  "errorText getErr = (if message getErr \<noteq> [] then message getErr else as_string getErr)"

text \<open>The result is the returned object and the clock at the return.\<close>

definition fetchWithHeadThenGet :: "network \<Rightarrow> nat \<Rightarrow> string option \<Rightarrow> probe_data \<times> nat" where
  "fetchWithHeadThenGet net now url =
     (let start = now;
          (d1, headRes) = net HEAD url start;
          now1 = start + d1
      in case headRes of
           Resolved st hs \<Rightarrow>
             (\<lparr>p_status = Ok, p_httpStatus = Val st, p_timeMs = Val (now1 - start),
               p_error = None, p_headers = Some hs\<rparr>, now1)
         | Rejected headErr \<Rightarrow>
             (let start2 = now1;
                  (d2, getRes) = net GET url start2;
                  now2 = start2 + d2
              in case getRes of
                   Resolved st hs \<Rightarrow>
                     (\<lparr>p_status = Ok, p_httpStatus = Val st, p_timeMs = Val (now2 - start2),
                       p_error = None, p_headers = Some hs\<rparr>, now2)
                 | Rejected getErr \<Rightarrow>
                     (\<lparr>p_status = Error, p_httpStatus = errorCode getErr,
                       p_timeMs = Val (now2 - start2),
                       p_error = Some (errorText getErr), p_headers = None\<rparr>, now2)))"

section \<open>The worker pool: \<open>checkResources\<close>\<close>

text \<open>
  An entry of \<open>results\<close> and of \<open>finalResources\<close>: the keys of a resource and the keys a
  probe or a classification adds (\<open>rnote\<close> is the key \<open>note\<close>).
\<close>

record result = resource +
  status :: status
  rnote :: "string option"
  httpStatus :: "nat js"
  timeMs :: "nat js"
  error :: "string option"
  headers :: "http_headers option"

text \<open>\<open>Object.assign({}, item, data)\<close>.\<close>

definition assignData :: "resource \<Rightarrow> probe_data \<Rightarrow> result" where
  "assignData item d =
     \<lparr>rid = rid item, rtype = rtype item, raw = raw item, resolved = resolved item,
      skippable = skippable item, duplicateOf = duplicateOf item,
      status = p_status d, rnote = None, httpStatus = p_httpStatus d, timeMs = p_timeMs d,
      error = p_error d, headers = p_headers d\<rparr>"

definition itemOf :: "result \<Rightarrow> resource" where
  "itemOf c =
     \<lparr>rid = rid c, rtype = rtype c, raw = raw c, resolved = resolved c,
      skippable = skippable c, duplicateOf = duplicateOf c\<rparr>"

text \<open>
  JavaScript runs the eight async workers on one thread: a worker runs until its
  \<open>await\<close>, and another one runs then. A worker is about to test \<open>queue.length\<close>
  (\<open>Ready\<close>), waits for the probe of the item it shifted (\<open>Awaiting\<close>), or has left its
  loop (\<open>Finished\<close>). The steps are the three things a worker does between two awaits;
  which worker moves next, and what the network answers, is not determined. An item is
  an object, so the test \<open>!item\<close> after the shift never leaves the loop, and
  \<open>fetchWithHeadThenGet\<close> catches every exception itself, so the \<open>catch\<close> of the worker
  is never entered: neither has a step.
\<close>

definition probeItem :: "network \<Rightarrow> nat \<Rightarrow> resource \<Rightarrow> result" where
  "probeItem net now item = assignData item (fst (fetchWithHeadThenGet net now (resolved item)))"

datatype worker = Ready | Awaiting resource | Finished

record pool =
  queue :: "resource list"
  results :: "result list"
  workers :: "worker list"

definition CONCURRENCY :: nat where
  "CONCURRENCY = 8"

definition startPool :: "resource list \<Rightarrow> pool" where
  "startPool items = \<lparr>queue = items, results = [], workers = replicate CONCURRENCY Ready\<rparr>"

inductive step :: "pool \<Rightarrow> pool \<Rightarrow> bool" where
  shift:
    "w < length (workers s) \<Longrightarrow> workers s ! w = Ready \<Longrightarrow> queue s = item # rest \<Longrightarrow>
     step s (s\<lparr>queue := rest, workers := (workers s)[w := Awaiting item]\<rparr>)"
| leave:
    "w < length (workers s) \<Longrightarrow> workers s ! w = Ready \<Longrightarrow> queue s = [] \<Longrightarrow>
     step s (s\<lparr>workers := (workers s)[w := Finished]\<rparr>)"
| push:
    "w < length (workers s) \<Longrightarrow> workers s ! w = Awaiting item \<Longrightarrow>
     step s (s\<lparr>results := results s @ [probeItem net now item],
              workers := (workers s)[w := Ready]\<rparr>)"



definition allFinished :: "pool \<Rightarrow> bool" where
  "allFinished s = list_all (\<lambda>w. w = Finished) (workers s)"

definition reachable :: "resource list \<Rightarrow> pool \<Rightarrow> bool" where
  "reachable items s = step\<^sup>*\<^sup>* (startPool items) s"

text \<open>
  The items some worker is waiting for, and a measure of the work left: every step
  makes it smaller.
\<close>

definition pending :: "worker \<Rightarrow> resource multiset" where
  "pending w = (case w of Awaiting item \<Rightarrow> {#item#} | _ \<Rightarrow> {#})"



text \<open>
  Every item of the input is in the queue, awaited by a worker, or has its result.
\<close>

definition covered :: "resource list \<Rightarrow> pool \<Rightarrow> bool" where
  "covered items s =
     (mset (map itemOf (results s)) + mset (queue s) + sum_list (map pending (workers s)) = mset items)"

text \<open>\<open>checkResources items out\<close>: a run of the pool on \<open>items\<close> can return \<open>out\<close>.\<close>

definition checkResources :: "resource list \<Rightarrow> result list \<Rightarrow> bool" where
  "checkResources items out = (\<exists>s. reachable items s \<and> allFinished s \<and> results s = out)"

section \<open>The final list and the summary\<close>

text \<open>\<open>new Map(checked.map(c => [c.resolved, c]))\<close>: a later entry replaces an earlier one.\<close>

definition checkedMap :: "result list \<Rightarrow> (string option \<rightharpoonup> result)" where
  "checkedMap checked = fold (\<lambda>c m. m(resolved c \<mapsto> c)) checked Map.empty"

text \<open>\<open>Object.assign({}, r, { status: ..., note: ... })\<close>.\<close>

definition assignStatus :: "resource \<Rightarrow> status \<Rightarrow> string \<Rightarrow> result" where
  "assignStatus r st n =
     \<lparr>rid = rid r, rtype = rtype r, raw = raw r, resolved = resolved r,
      skippable = skippable r, duplicateOf = duplicateOf r,
      status = st, rnote = Some n, httpStatus = Undefined, timeMs = Undefined,
      error = None, headers = None\<rparr>"

text \<open>
  \<open>Object.assign({}, r, found)\<close>: \<open>found\<close> has every key of \<open>r\<close>, so each key of the
  result holds the value of \<open>found\<close>.
\<close>

definition assignFound :: "resource \<Rightarrow> result \<Rightarrow> result" where
  "assignFound r found =
     \<lparr>rid = rid found, rtype = rtype found, raw = raw found, resolved = resolved found,
      skippable = skippable found, duplicateOf = duplicateOf found,
      status = status found, rnote = rnote found, httpStatus = httpStatus found,
      timeMs = timeMs found, error = error found, headers = headers found\<rparr>"

definition finalResource :: "(string option \<rightharpoonup> result) \<Rightarrow> resource \<Rightarrow> result" where
  "finalResource cm r =
     (if \<not> truthy (resolved r) then assignStatus r Unresolved ''Could not resolve URL''
      else if skippable r then assignStatus r Skipped ''Skippable (mailto/tel/javascript/#)''
      else case cm (resolved r) of
             Some found \<Rightarrow> assignFound r found
           | None \<Rightarrow> assignStatus r Not_checked ''Not checked (limit reached or queued)'')"

definition finalResources :: "resource list \<Rightarrow> result list \<Rightarrow> result list" where
  "finalResources rs checked = map (finalResource (checkedMap checked)) rs"




text \<open>
  \<open>Math.round\<close> rounds to the nearest integer, a half upwards. The sum and the quotient
  are taken exactly: the times are integers far below \<open>2^53\<close>.
\<close>

definition Math_round :: "rat \<Rightarrow> int" where
  "Math_round x = \<lfloor>x + 1 / 2\<rfloor>"

definition hasTime :: "result \<Rightarrow> bool" where
  "hasTime r = (case timeMs r of Val t \<Rightarrow> True | _ \<Rightarrow> False)"

definition timeOf :: "result \<Rightarrow> nat" where
  "timeOf r = (case timeMs r of Val t \<Rightarrow> t | _ \<Rightarrow> 0)"

definition okTimes :: "result list \<Rightarrow> nat list" where
  "okTimes fs = map timeOf (filter (\<lambda>r. hasTime r \<and> status r = Ok) fs)"

definition avgResponse :: "result list \<Rightarrow> int option" where
  "avgResponse fs =
     (let times = okTimes fs in
      if times = [] then None
      else Some (Math_round (rat_of_nat (foldl (\<lambda>a b. a + b) 0 times) / rat_of_nat (length times))))"

section \<open>Example inputs\<close>

text \<open>
  The page \<open>https://example.com/\<close> and what the URL parser answers, with this base, on
  the references of the examples: a path is resolved against the base, the empty
  reference is the base itself, \<open>javascript:void(0)\<close> and \<open>anchor:http://[:0\<close> are absolute
  URLs already (a scheme and an opaque path), and
  \<open>http://[\<close> and \<open>javascript://[\<close> (a host that opens an IPv6 literal and never closes
  it) make the constructor throw.
\<close>

definition exBase :: string where
  "exBase = ''https://example.com/''"

definition exURL :: url_parser where
  "exURL relative base =
     (if relative = ''/about'' then Inr (base @ ''about'')
      else if relative = ''/contact'' then Inr (base @ ''contact'')
      else if relative = [] then Inr base
      else if relative = ''javascript:void(0)'' then Inr ''javascript:void(0)''
      else if relative = ''anchor:http://[:0'' then Inr ''anchor:http://[:0''
      else Inl TypeError)"

definition exAbout :: raw_resource where
  "exAbout = \<lparr>raw_type = Anchor, raw_raw = ''/about''\<rparr>"

definition exContact :: raw_resource where
  "exContact = \<lparr>raw_type = Anchor, raw_raw = ''/contact''\<rparr>"

definition exEmpty :: raw_resource where
  "exEmpty = \<lparr>raw_type = Anchor, raw_raw = []\<rparr>"

definition exBadAnchor :: raw_resource where
  "exBadAnchor = \<lparr>raw_type = Anchor, raw_raw = ''http://[''\<rparr>"

definition exBadImage :: raw_resource where
  "exBadImage = \<lparr>raw_type = Image, raw_raw = ''http://[''\<rparr>"

definition exJsImage :: raw_resource where
  "exJsImage = \<lparr>raw_type = Image, raw_raw = ''javascript:void(0)''\<rparr>"

definition exJsBad :: raw_resource where
  "exJsBad = \<lparr>raw_type = Anchor, raw_raw = ''javascript://[''\<rparr>"

definition exOpaque :: raw_resource where
  "exOpaque = \<lparr>raw_type = Anchor, raw_raw = ''anchor:http://[:0''\<rparr>"

definition exTwo :: "resource list" where
  "exTwo = resources exURL exBase [exAbout, exContact]"

text \<open>
  Networks: every request answered with 200 after 50 ms; a server that rejects \<open>HEAD\<close>
  with 405 after 30 ms and answers \<open>GET\<close> with 200 after 50 ms; a server that answers
  404 to both methods after 40 ms; and one that answers 200 after 1 ms for the about
  page and after 2 ms for every other URL.
\<close>

definition netOk :: network where
  "netOk m url t = (50, Resolved 200 [])"

definition err405 :: axios_error where
  "err405 = \<lparr>response_status = Some 405, message = ''Request failed with status code 405'',
             as_string = ''AxiosError: Request failed with status code 405''\<rparr>"


definition net405 :: network where
  "net405 m url t = (case m of HEAD \<Rightarrow> (30, Rejected err405) | GET \<Rightarrow> (50, Resolved 200 []))"


definition netTimes :: network where
  "netTimes m url t =
     (if url = Some ''https://example.com/about'' then (1, Resolved 200 []) else (2, Resolved 200 []))"

section \<open>Properties of the string functions\<close>

lemma digitChar_not_colon: "d < 10 \<Longrightarrow> digitChar d \<noteq> CHR '':''"
  by (simp add: digitChar_def char_of_eq_iff take_bit_eq_mod)

lemma digitChar_inj: "d < 10 \<Longrightarrow> e < 10 \<Longrightarrow> digitChar d = digitChar e \<Longrightarrow> d = e"
  by (simp add: digitChar_def)

lemma decimal_not_Nil: "decimal n \<noteq> []"
  by (subst decimal.simps) simp

lemma decimal_no_colon: "CHR '':'' \<notin> set (decimal n)"
proof (induction n rule: decimal.induct)
  case (1 n)
  show ?case
  proof (cases "n < 10")
    case True
    then show ?thesis
      using digitChar_not_colon [of n] by (subst decimal.simps) auto
  next
    case False
    have "n mod 10 < 10" by simp
    from digitChar_not_colon [OF this] 1 [OF False] False show ?thesis
      by (subst decimal.simps) auto
  qed
qed

lemma decimal_inj: "decimal m = decimal n \<Longrightarrow> m = n"
proof (induction m arbitrary: n rule: decimal.induct)
  case (1 m)
  show ?case
  proof (cases "m < 10")
    case mT: True
    show ?thesis
    proof (cases "n < 10")
      case True
      with mT "1.prems" show ?thesis
        by (simp add: decimal.simps [of m] decimal.simps [of n] digitChar_inj)
    next
      case False
      with mT "1.prems" decimal_not_Nil [of "n div 10"] show ?thesis
        by (simp add: decimal.simps [of m] decimal.simps [of n])
    qed
  next
    case mF: False
    show ?thesis
    proof (cases "n < 10")
      case True
      with mF "1.prems" decimal_not_Nil [of "m div 10"] show ?thesis
        by (simp add: decimal.simps [of m] decimal.simps [of n])
    next
      case False
      with mF "1.prems" have a: "decimal (m div 10) = decimal (n div 10)"
        and b: "digitChar (m mod 10) = digitChar (n mod 10)"
        by (simp_all add: decimal.simps [of m] decimal.simps [of n])
      from "1.IH" [OF mF a] have "m div 10 = n div 10" .
      moreover from b have "m mod 10 = n mod 10"
        by (intro digitChar_inj) simp_all
      ultimately show ?thesis
        by (metis div_mult_mod_eq)
    qed
  qed
qed

lemma last_field:
  assumes "xs @ CHR '':'' # ds = ys @ CHR '':'' # es"
    and "CHR '':'' \<notin> set ds" and "CHR '':'' \<notin> set es"
  shows "ds = es"
proof -
  have "takeWhile (\<lambda>c. c \<noteq> CHR '':'') (rev (xs @ CHR '':'' # ds)) = rev ds"
    using assms(2) by (auto simp: takeWhile_tail)
  moreover have "takeWhile (\<lambda>c. c \<noteq> CHR '':'') (rev (ys @ CHR '':'' # es)) = rev es"
    using assms(3) by (auto simp: takeWhile_tail)
  ultimately have "rev ds = rev es" using assms(1) by simp
  then show ?thesis by simp
qed

lemma fallbackKey_inj: "fallbackKey r i = fallbackKey r' j \<Longrightarrow> i = j"
proof -
  assume "fallbackKey r i = fallbackKey r' j"
  then have "(typeName (raw_type r) @ '':'' @ raw_raw r) @ CHR '':'' # decimal i
      = (typeName (raw_type r') @ '':'' @ raw_raw r') @ CHR '':'' # decimal j"
    by (simp add: fallbackKey_def)
  from last_field [OF this decimal_no_colon decimal_no_colon] show "i = j"
    by (rule decimal_inj)
qed

lemma fallbackKey_not_Nil: "fallbackKey r i \<noteq> []"
  by (simp add: fallbackKey_def)

lemma resourceKey_not_Nil: "resourceKey res r i \<noteq> []"
  by (auto simp: resourceKey_def truthy_def fallbackKey_not_Nil split: option.splits)

section \<open>Properties of the resource list\<close>

lemma length_resourcesFrom [simp]:
  "length (resourcesFrom newURL base seen idx raws) = length raws"
  by (induction raws arbitrary: seen idx) (simp_all add: Let_def)

lemma nth_resourcesFrom:
  "i < length raws \<Longrightarrow>
   resolved (resourcesFrom newURL base seen idx raws ! i) = resolveUrl newURL base (raw_raw (raws ! i)) \<and>
   rid (resourcesFrom newURL base seen idx raws ! i)
     = resourceKey (resolveUrl newURL base (raw_raw (raws ! i))) (raws ! i) (idx + i) \<and>
   skippable (resourcesFrom newURL base seen idx raws ! i) = isSkippableHref (raw_raw (raws ! i)) \<and>
   raw (resourcesFrom newURL base seen idx raws ! i) = raw_raw (raws ! i) \<and>
   rtype (resourcesFrom newURL base seen idx raws ! i) = raw_type (raws ! i)"
proof (induction raws arbitrary: seen idx i)
  case Nil
  then show ?case by simp
next
  case (Cons r rs)
  show ?case
  proof (cases i)
    case 0
    then show ?thesis by (simp add: Let_def)
  next
    case (Suc k)
    with Cons.prems have "k < length rs" by simp
    from Cons.IH [OF this] Suc show ?thesis by (simp add: Let_def)
  qed
qed

lemma dup_seen:
  "i < length raws \<Longrightarrow> seen (resolveUrl newURL base (raw_raw (raws ! i))) = Some k \<Longrightarrow>
   duplicateOf (resourcesFrom newURL base seen idx raws ! i) = Some k"
proof (induction raws arbitrary: seen idx i)
  case Nil
  then show ?case by simp
next
  case (Cons r rs)
  show ?case
  proof (cases i)
    case 0
    with Cons.prems show ?thesis by (simp add: Let_def)
  next
    case (Suc j)
    with Cons.prems have j: "j < length rs"
      and s: "seen (resolveUrl newURL base (raw_raw (rs ! j))) = Some k" by simp_all
    let ?res = "resolveUrl newURL base (raw_raw r)"
    let ?seen' = "if seen ?res = None then seen(?res \<mapsto> resourceKey ?res r idx) else seen"
    have "?seen' (resolveUrl newURL base (raw_raw (rs ! j))) = Some k"
      using s by auto
    from Cons.IH [where seen = "?seen'", OF j this] Suc show ?thesis by (simp add: Let_def)
  qed
qed

lemma dup_first:
  "i < length raws \<Longrightarrow> seen (resolveUrl newURL base (raw_raw (raws ! i))) = None \<Longrightarrow>
   (\<forall>k<i. resolveUrl newURL base (raw_raw (raws ! k)) \<noteq> resolveUrl newURL base (raw_raw (raws ! i))) \<Longrightarrow>
   duplicateOf (resourcesFrom newURL base seen idx raws ! i) = None"
proof (induction raws arbitrary: seen idx i)
  case Nil
  then show ?case by simp
next
  case (Cons r rs)
  show ?case
  proof (cases i)
    case 0
    with Cons.prems show ?thesis by (simp add: Let_def)
  next
    case (Suc j)
    with Cons.prems have j: "j < length rs"
      and s: "seen (resolveUrl newURL base (raw_raw (rs ! j))) = None" by simp_all
    let ?res = "resolveUrl newURL base (raw_raw r)"
    let ?seen' = "if seen ?res = None then seen(?res \<mapsto> resourceKey ?res r idx) else seen"
    from Cons.prems(3) Suc have ne: "?res \<noteq> resolveUrl newURL base (raw_raw (rs ! j))"
      by force
    have s': "?seen' (resolveUrl newURL base (raw_raw (rs ! j))) = None"
      using s ne by auto
    have "\<forall>k<j. resolveUrl newURL base (raw_raw (rs ! k)) \<noteq> resolveUrl newURL base (raw_raw (rs ! j))"
    proof (intro allI impI)
      fix k assume "k < j"
      then have "Suc k < i" using Suc by simp
      from Cons.prems(3) [rule_format, OF this] Suc show
        "resolveUrl newURL base (raw_raw (rs ! k)) \<noteq> resolveUrl newURL base (raw_raw (rs ! j))"
        by simp
    qed
    from Cons.IH [where seen = "?seen'", OF j s' this] Suc show ?thesis by (simp add: Let_def)
  qed
qed

lemma dup_later:
  "i < j \<Longrightarrow> j < length raws \<Longrightarrow> seen (resolveUrl newURL base (raw_raw (raws ! i))) = None \<Longrightarrow>
   (\<forall>k<i. resolveUrl newURL base (raw_raw (raws ! k)) \<noteq> resolveUrl newURL base (raw_raw (raws ! i))) \<Longrightarrow>
   resolveUrl newURL base (raw_raw (raws ! j)) = resolveUrl newURL base (raw_raw (raws ! i)) \<Longrightarrow>
   duplicateOf (resourcesFrom newURL base seen idx raws ! j)
     = Some (resourceKey (resolveUrl newURL base (raw_raw (raws ! i))) (raws ! i) (idx + i))"
proof (induction raws arbitrary: seen idx i j)
  case Nil
  then show ?case by simp
next
  case (Cons r rs)
  from Cons.prems obtain j' where j': "j = Suc j'" "j' < length rs"
    by (cases j) auto
  let ?res = "resolveUrl newURL base (raw_raw r)"
  let ?seen' = "if seen ?res = None then seen(?res \<mapsto> resourceKey ?res r idx) else seen"
  show ?case
  proof (cases i)
    case 0
    with Cons.prems j' have "?seen' (resolveUrl newURL base (raw_raw (rs ! j'))) = Some (resourceKey ?res r idx)"
      by simp
    from dup_seen [where seen = "?seen'", OF j'(2) this] 0 j' show ?thesis by (simp add: Let_def)
  next
    case (Suc i')
    with Cons.prems j' have lt: "i' < j'" by simp
    from Cons.prems(4) Suc have ne: "?res \<noteq> resolveUrl newURL base (raw_raw (rs ! i'))"
      by force
    have s': "?seen' (resolveUrl newURL base (raw_raw (rs ! i'))) = None"
      using Cons.prems(3) Suc ne by auto
    have fst: "\<forall>k<i'. resolveUrl newURL base (raw_raw (rs ! k)) \<noteq> resolveUrl newURL base (raw_raw (rs ! i'))"
    proof (intro allI impI)
      fix k assume "k < i'"
      then have "Suc k < i" using Suc by simp
      from Cons.prems(4) [rule_format, OF this] Suc show
        "resolveUrl newURL base (raw_raw (rs ! k)) \<noteq> resolveUrl newURL base (raw_raw (rs ! i'))"
        by simp
    qed
    have eq: "resolveUrl newURL base (raw_raw (rs ! j')) = resolveUrl newURL base (raw_raw (rs ! i'))"
      using Cons.prems(5) Suc j' by simp
    from Cons.IH [where seen = "?seen'", OF lt j'(2) s' fst eq] Suc j' show ?thesis by (simp add: Let_def)
  qed
qed

section \<open>Properties of the worker pool\<close>

lemma sum_list_update_gen:
  fixes f :: "'a \<Rightarrow> 'b::comm_monoid_add"
  shows "w < length ws \<Longrightarrow>
    sum_list (map f (ws[w := x])) + f (ws ! w) = sum_list (map f ws) + f x"
proof (induction ws arbitrary: w)
  case Nil
  then show ?case by simp
next
  case (Cons y ys)
  show ?case
  proof (cases w)
    case 0
    then show ?thesis by (simp add: ac_simps)
  next
    case (Suc k)
    with Cons.prems have "k < length ys" by simp
    from Cons.IH [OF this] Suc show ?thesis
      by (simp add: add.assoc)
  qed
qed

lemma step_length_workers: "step s s' \<Longrightarrow> length (workers s') = length (workers s)"
  by (induction rule: step.induct) simp_all


lemma itemOf_assignData [simp]: "itemOf (assignData item d) = item"
  by (simp add: itemOf_def assignData_def)

lemma itemOf_probeItem [simp]: "itemOf (probeItem net now item) = item"
  by (simp add: probeItem_def)

lemma step_covered: "step s s' \<Longrightarrow> covered items s \<Longrightarrow> covered items s'"
proof (induction rule: step.induct)
  case (shift w s item rest)
  from sum_list_update_gen [OF shift(1), of pending "Awaiting item"] shift(2)
  have "sum_list (map pending ((workers s)[w := Awaiting item])) = sum_list (map pending (workers s)) + {#item#}"
    by (simp add: pending_def)
  with shift(3,4) show ?case by (simp add: covered_def)
next
  case (leave w s)
  from sum_list_update_gen [OF leave(1), of pending Finished] leave(2)
  have "sum_list (map pending ((workers s)[w := Finished])) = sum_list (map pending (workers s))"
    by (simp add: pending_def)
  with leave(4) show ?case by (simp add: covered_def)
next
  case (push w s item net now)
  from sum_list_update_gen [OF push(1), of pending Ready] push(2)
  have "sum_list (map pending (workers s)) = sum_list (map pending ((workers s)[w := Ready])) + {#item#}"
    by (simp add: pending_def)
  with push(3) show ?case by (simp add: covered_def)
qed

lemma step_queue_empty:
  "step s s' \<Longrightarrow> (Finished \<in> set (workers s) \<longrightarrow> queue s = []) \<Longrightarrow>
   (Finished \<in> set (workers s') \<longrightarrow> queue s' = [])"
proof (induction rule: step.induct)
  case (shift w s item rest)
  have "set ((workers s)[w := Awaiting item]) \<subseteq> insert (Awaiting item) (set (workers s))"
    by (rule set_update_subset_insert)
  with shift show ?case by auto
next
  case (leave w s)
  then show ?case by simp
next
  case (push w s item net now)
  have "set ((workers s)[w := Ready]) \<subseteq> insert Ready (set (workers s))"
    by (rule set_update_subset_insert)
  with push show ?case by auto
qed

lemma hasTime_probeItem: "hasTime (probeItem net now item)"
  by (simp add: probeItem_def assignData_def fetchWithHeadThenGet_def hasTime_def Let_def
      split: prod.splits axios_result.splits)

lemma status_probeItem: "status (probeItem net now item) = Ok \<or> status (probeItem net now item) = Error"
  by (simp add: probeItem_def assignData_def fetchWithHeadThenGet_def Let_def
      split: prod.splits axios_result.splits)

lemma step_results_status:
  "step s s' \<Longrightarrow> \<forall>c\<in>set (results s). status c = Ok \<or> status c = Error \<Longrightarrow>
   \<forall>c\<in>set (results s'). status c = Ok \<or> status c = Error"
  by (induction rule: step.induct) (auto simp: status_probeItem)

lemma step_results_hasTime:
  "step s s' \<Longrightarrow> \<forall>c\<in>set (results s). hasTime c \<Longrightarrow> \<forall>c\<in>set (results s'). hasTime c"
  by (induction rule: step.induct) (auto simp: hasTime_probeItem)

lemma covered_startPool: "covered items (startPool items)"
proof -
  have "sum_list (map pending (replicate n Ready)) = {#}" for n
    by (induction n) (simp_all add: pending_def)
  then show ?thesis by (simp add: covered_def startPool_def)
qed

lemma reachable_invariant:
  assumes "reachable items s"
  shows "length (workers s) = CONCURRENCY \<and> covered items s \<and>
         (Finished \<in> set (workers s) \<longrightarrow> queue s = []) \<and> (\<forall>c\<in>set (results s). hasTime c) \<and>
         (\<forall>c\<in>set (results s). status c = Ok \<or> status c = Error)"
  using assms unfolding reachable_def
proof (induction rule: rtranclp_induct)
  case base
  show ?case
    by (simp add: covered_startPool) (simp add: startPool_def)
next
  case (step y z)
  from step.hyps(2) step.IH have "length (workers z) = CONCURRENCY"
    by (simp add: step_length_workers)
  moreover from step.hyps(2) step.IH have "covered items z"
    by (simp add: step_covered)
  moreover from step.hyps(2) step.IH have "Finished \<in> set (workers z) \<longrightarrow> queue z = []"
    by (intro step_queue_empty [of y z]) simp_all
  moreover from step.hyps(2) step.IH have "\<forall>c\<in>set (results z). hasTime c"
    by (intro step_results_hasTime [of y z]) simp_all
  moreover from step.hyps(2) step.IH have "\<forall>c\<in>set (results z). status c = Ok \<or> status c = Error"
    by (intro step_results_status [of y z]) simp_all
  ultimately show ?case by simp
qed


lemma finished_results:
  assumes "reachable items s" "allFinished s"
  shows "mset (map itemOf (results s)) = mset items"
proof -
  from reachable_invariant [OF assms(1)] have len: "length (workers s) = CONCURRENCY"
    and cov: "covered items s" and q: "Finished \<in> set (workers s) \<longrightarrow> queue s = []"
    by simp_all
  from assms(2) have all: "\<forall>w\<in>set (workers s). w = Finished"
    by (simp add: allFinished_def list_all_iff)
  from len have "workers s \<noteq> []" by (auto simp: CONCURRENCY_def)
  then obtain w where "w \<in> set (workers s)" by (cases "workers s") auto
  with all q have "queue s = []" by auto
  moreover have "sum_list (map pending ws) = {#}" if "\<forall>w\<in>set ws. w = Finished" for ws
    using that by (induction ws) (simp_all add: pending_def)
  from this [OF all] have "sum_list (map pending (workers s)) = {#}" .
  ultimately show ?thesis using cov by (simp add: covered_def)
qed


lemma checkResources_sound:
  assumes "checkResources items out"
  shows "mset (map itemOf out) = mset items \<and> (\<forall>c\<in>set out. hasTime c) \<and>
         (\<forall>c\<in>set out. status c = Ok \<or> status c = Error)"
proof -
  from assms obtain s where s: "reachable items s" "allFinished s" "results s = out"
    by (auto simp: checkResources_def)
  from finished_results [OF s(1,2)] reachable_invariant [OF s(1)] s(3) show ?thesis by simp
qed

section \<open>Runs of the worker pool and the merged list\<close>

lemma step_shift_pool:
  "w < length ws \<Longrightarrow> ws ! w = Ready \<Longrightarrow>
   step \<lparr>queue = item # rest, results = res, workers = ws\<rparr>
        \<lparr>queue = rest, results = res, workers = ws[w := Awaiting item]\<rparr>"
  using step.shift [of w "\<lparr>queue = item # rest, results = res, workers = ws\<rparr>" item rest]
  by simp

lemma step_leave_pool:
  "w < length ws \<Longrightarrow> ws ! w = Ready \<Longrightarrow>
   step \<lparr>queue = [], results = res, workers = ws\<rparr>
        \<lparr>queue = [], results = res, workers = ws[w := Finished]\<rparr>"
  using step.leave [of w "\<lparr>queue = [], results = res, workers = ws\<rparr>"]
  by simp

lemma step_push_pool:
  "w < length ws \<Longrightarrow> ws ! w = Awaiting item \<Longrightarrow>
   step \<lparr>queue = q, results = res, workers = ws\<rparr>
        \<lparr>queue = q, results = res @ [probeItem net now item], workers = ws[w := Ready]\<rparr>"
  using step.push [of w "\<lparr>queue = q, results = res, workers = ws\<rparr>" item net now]
  by simp

lemma drain:
  "list_all (\<lambda>w. w = Ready \<or> w = Finished) ws \<Longrightarrow>
   step\<^sup>*\<^sup>* \<lparr>queue = [], results = res, workers = fs @ ws\<rparr>
          \<lparr>queue = [], results = res, workers = fs @ replicate (length ws) Finished\<rparr>"
proof (induction ws arbitrary: fs)
  case Nil
  then show ?case by simp
next
  case (Cons x ws)
  then have rest: "list_all (\<lambda>w. w = Ready \<or> w = Finished) ws" by simp
  from Cons.IH [OF rest, of "fs @ [Finished]"]
  have tl: "step\<^sup>*\<^sup>* \<lparr>queue = [], results = res, workers = fs @ Finished # ws\<rparr>
      \<lparr>queue = [], results = res, workers = fs @ replicate (length (x # ws)) Finished\<rparr>"
    by (simp add: replicate_app_Cons_same)
  show ?case
  proof (cases "x = Finished")
    case True
    with tl show ?thesis by simp
  next
    case False
    with Cons.prems have x: "x = Ready" by simp
    have "step \<lparr>queue = [], results = res, workers = fs @ x # ws\<rparr>
        \<lparr>queue = [], results = res, workers = (fs @ x # ws)[length fs := Finished]\<rparr>"
      using x by (intro step_leave_pool) simp_all
    then have "step \<lparr>queue = [], results = res, workers = fs @ x # ws\<rparr>
        \<lparr>queue = [], results = res, workers = fs @ Finished # ws\<rparr>"
      by simp
    from this tl show ?thesis by (rule converse_rtranclp_into_rtranclp)
  qed
qed

lemma in_order:
  assumes "\<And>item. item \<in> set items \<Longrightarrow> \<exists>net now. f item = probeItem net now item"
  shows "step\<^sup>*\<^sup>* \<lparr>queue = items, results = res, workers = Ready # ws\<rparr>
          \<lparr>queue = [], results = res @ map f items, workers = Ready # ws\<rparr>"
  using assms
proof (induction items arbitrary: res)
  case Nil
  then show ?case by simp
next
  case (Cons item rest)
  from Cons.prems obtain net now where f: "f item = probeItem net now item"
    by (meson list.set_intros(1))
  have s1: "step \<lparr>queue = item # rest, results = res, workers = Ready # ws\<rparr>
      \<lparr>queue = rest, results = res, workers = Awaiting item # ws\<rparr>"
    using step_shift_pool [of 0 "Ready # ws" item rest res] by simp
  have s2: "step \<lparr>queue = rest, results = res, workers = Awaiting item # ws\<rparr>
      \<lparr>queue = rest, results = res @ [f item], workers = Ready # ws\<rparr>"
    using step_push_pool [of 0 "Awaiting item # ws" item rest res net now] f by simp
  have "step\<^sup>*\<^sup>* \<lparr>queue = rest, results = res @ [f item], workers = Ready # ws\<rparr>
      \<lparr>queue = [], results = (res @ [f item]) @ map f rest, workers = Ready # ws\<rparr>"
    using Cons.prems by (intro Cons.IH) simp
  then have s3: "step\<^sup>*\<^sup>* \<lparr>queue = rest, results = res @ [f item], workers = Ready # ws\<rparr>
      \<lparr>queue = [], results = res @ map f (item # rest), workers = Ready # ws\<rparr>"
    by simp
  from s1 s2 s3 show ?case
    by (meson converse_rtranclp_into_rtranclp)
qed

lemma replicate_CONCURRENCY: "replicate CONCURRENCY x = x # replicate 7 x"
  by (simp add: CONCURRENCY_def numeral_eq_Suc)

lemma reachable_in_order:
  assumes "\<And>item. item \<in> set items \<Longrightarrow> \<exists>net now. f item = probeItem net now item"
  shows "reachable items \<lparr>queue = [], results = map f items, workers = replicate CONCURRENCY Finished\<rparr>"
proof -
  let ?ws = "replicate CONCURRENCY Ready"
  let ?end = "\<lparr>queue = [], results = map f items, workers = replicate CONCURRENCY Finished\<rparr>"
  have "step\<^sup>*\<^sup>* (startPool items) \<lparr>queue = [], results = [] @ map f items, workers = ?ws\<rparr>"
    unfolding startPool_def replicate_CONCURRENCY using assms by (rule in_order)
  moreover have "step\<^sup>*\<^sup>* \<lparr>queue = [], results = map f items, workers = [] @ ?ws\<rparr>
      \<lparr>queue = [], results = map f items, workers = [] @ replicate (length ?ws) Finished\<rparr>"
    by (rule drain) (simp add: list_all_iff)
  ultimately have "step\<^sup>*\<^sup>* (startPool items) ?end" by simp
  then show ?thesis by (simp add: reachable_def)
qed

lemma allFinished_replicate:
  "allFinished \<lparr>queue = q, results = res, workers = replicate n Finished\<rparr>"
  by (simp add: allFinished_def list_all_iff)

lemma checkResources_in_order:
  assumes "\<And>item. item \<in> set items \<Longrightarrow> \<exists>net now. f item = probeItem net now item"
  shows "checkResources items (map f items)"
  unfolding checkResources_def
  using reachable_in_order [of items f, OF assms] allFinished_replicate
  by (intro exI [of _ "\<lparr>queue = [], results = map f items, workers = replicate CONCURRENCY Finished\<rparr>"]) simp

lemma checkResources_two_reversed:
  "checkResources [a, b] [probeItem net2 now2 b, probeItem net1 now1 a]"
proof -
  let ?R = "replicate 6 Ready"
  let ?end = "\<lparr>queue = [], results = [probeItem net2 now2 b, probeItem net1 now1 a],
     workers = replicate CONCURRENCY Finished\<rparr>"
  have ws: "replicate CONCURRENCY Ready = Ready # Ready # ?R"
    by (simp add: CONCURRENCY_def numeral_eq_Suc)
  have s1: "step (startPool [a, b]) \<lparr>queue = [b], results = [], workers = Awaiting a # Ready # ?R\<rparr>"
    unfolding startPool_def ws
    using step_shift_pool [of 0 "Ready # Ready # ?R" a "[b]" "[]"] by simp
  have s2: "step \<lparr>queue = [b], results = [], workers = Awaiting a # Ready # ?R\<rparr>
      \<lparr>queue = [], results = [], workers = Awaiting a # Awaiting b # ?R\<rparr>"
    using step_shift_pool [of 1 "Awaiting a # Ready # ?R" b "[]" "[]"] by simp
  have s3: "step \<lparr>queue = [], results = [], workers = Awaiting a # Awaiting b # ?R\<rparr>
      \<lparr>queue = [], results = [probeItem net2 now2 b], workers = Awaiting a # Ready # ?R\<rparr>"
    using step_push_pool [of 1 "Awaiting a # Awaiting b # ?R" b "[]" "[]" net2 now2] by simp
  have s4: "step \<lparr>queue = [], results = [probeItem net2 now2 b], workers = Awaiting a # Ready # ?R\<rparr>
      \<lparr>queue = [], results = [probeItem net2 now2 b, probeItem net1 now1 a], workers = Ready # Ready # ?R\<rparr>"
    using step_push_pool [of 0 "Awaiting a # Ready # ?R" a "[]" "[probeItem net2 now2 b]" net1 now1] by simp
  have "step\<^sup>*\<^sup>* \<lparr>queue = [], results = [probeItem net2 now2 b, probeItem net1 now1 a],
        workers = [] @ replicate CONCURRENCY Ready\<rparr>
      \<lparr>queue = [], results = [probeItem net2 now2 b, probeItem net1 now1 a],
        workers = [] @ replicate (length (replicate CONCURRENCY Ready)) Finished\<rparr>"
    by (rule drain) (simp add: list_all_iff)
  then have s5: "step\<^sup>*\<^sup>* \<lparr>queue = [], results = [probeItem net2 now2 b, probeItem net1 now1 a],
        workers = Ready # Ready # ?R\<rparr> ?end"
    by (simp add: ws) (simp add: CONCURRENCY_def)
  from s1 s2 s3 s4 s5 have "step\<^sup>*\<^sup>* (startPool [a, b]) ?end"
    by (meson converse_rtranclp_into_rtranclp)
  moreover have "allFinished ?end" by (simp add: allFinished_def list_all_iff)
  ultimately show ?thesis
    unfolding checkResources_def reachable_def by (intro exI [of _ ?end]) simp
qed

lemma checkedMap_snoc: "checkedMap (ck @ [c]) = (checkedMap ck)(resolved c \<mapsto> c)"
  by (simp add: checkedMap_def)

lemma checkedMap_Some: "checkedMap ck k = Some c \<Longrightarrow> c \<in> set ck \<and> resolved c = k"
proof (induction ck rule: rev_induct)
  case Nil
  then show ?case by (simp add: checkedMap_def)
next
  case (snoc x xs)
  then show ?case by (auto simp: checkedMap_snoc split: if_splits)
qed


lemma length_finalResources [simp]: "length (finalResources rs ck) = length rs"
  by (simp add: finalResources_def)

lemma nth_finalResources:
  "i < length rs \<Longrightarrow> finalResources rs ck ! i = finalResource (checkedMap ck) (rs ! i)"
  by (simp add: finalResources_def)

section \<open>The two-phase probe\<close>

text \<open>
  C7: when the \<open>HEAD\<close> request is rejected and the \<open>GET\<close> request is fulfilled, the
  probe records the status of the \<open>GET\<close> response and the time that request alone took;
  the time the rejected \<open>HEAD\<close> request took has passed on the clock and is not in the
  record.
\<close>

theorem C7_fallback_outcome:
  assumes "net HEAD url now = (d1, Rejected headErr)"
    and "net GET url (now + d1) = (d2, Resolved st hs)"
  shows "fetchWithHeadThenGet net now url =
    (\<lparr>p_status = Ok, p_httpStatus = Val st, p_timeMs = Val d2, p_error = None, p_headers = Some hs\<rparr>,
     now + d1 + d2)"
  using assms by (simp add: fetchWithHeadThenGet_def)

theorem C7_fallback_outcome_witness:
  "net405 HEAD (Some ''https://example.com/about'') 1000 = (30, Rejected err405) \<and>
   net405 GET (Some ''https://example.com/about'') (1000 + 30) = (50, Resolved 200 []) \<and>
   fetchWithHeadThenGet net405 1000 (Some ''https://example.com/about'') =
    (\<lparr>p_status = Ok, p_httpStatus = Val 200, p_timeMs = Val 50, p_error = None, p_headers = Some []\<rparr>,
     1000 + 30 + 50)"
proof -
  have h: "net405 HEAD (Some ''https://example.com/about'') 1000 = (30, Rejected err405)"
    by (simp add: net405_def)
  have g: "net405 GET (Some ''https://example.com/about'') (1000 + 30) = (50, Resolved 200 [])"
    by (simp add: net405_def)
  from C7_fallback_outcome [of net405 "Some ''https://example.com/about''" 1000 30 err405 50 200 "[]"] h g
  show ?thesis by simp
qed

section \<open>The worker pool is bounded and complete\<close>

lemma exTwo_eq: "exTwo =
   [\<lparr>rid = ''https://example.com/about'', rtype = Anchor, raw = ''/about'',
     resolved = Some ''https://example.com/about'', skippable = False, duplicateOf = None\<rparr>,
    \<lparr>rid = ''https://example.com/contact'', rtype = Anchor, raw = ''/contact'',
     resolved = Some ''https://example.com/contact'', skippable = False, duplicateOf = None\<rparr>]"
  by code_simp



section \<open>Duplicates among unresolved references\<close>

text \<open>
  C10: the map \<open>seen\<close> has \<open>null\<close> among its keys. When reference \<open>i\<close> is the first one
  whose resolution fails and a later reference \<open>j\<close> fails too, the entry \<open>j\<close> of the final
  list has \<open>duplicateOf\<close> set to the id of entry \<open>i\<close> (its fallback key), although neither
  has a resolved URL; entry \<open>i\<close> has no \<open>duplicateOf\<close>.
\<close>

theorem C10_unresolved_duplicates:
  assumes "i < j" and "j < length raws"
    and "resolveUrl newURL base (raw_raw (raws ! i)) = None"
    and "\<forall>k<i. resolveUrl newURL base (raw_raw (raws ! k)) \<noteq> None"
    and "resolveUrl newURL base (raw_raw (raws ! j)) = None"
  shows "duplicateOf (finalResources (resources newURL base raws) checked ! j)
      = Some (rid (finalResources (resources newURL base raws) checked ! i)) \<and>
    rid (finalResources (resources newURL base raws) checked ! i) = fallbackKey (raws ! i) i \<and>
    duplicateOf (finalResources (resources newURL base raws) checked ! i) = None \<and>
    resolved (finalResources (resources newURL base raws) checked ! i) = None \<and>
    resolved (finalResources (resources newURL base raws) checked ! j) = None"
proof -
  let ?rs = "resources newURL base raws"
  let ?cm = "checkedMap checked"
  from assms have i: "i < length raws" by simp
  have li: "i < length ?rs" and lj: "j < length ?rs"
    using i assms(2) by (simp_all add: resources_def)
  have ri: "resolved (?rs ! i) = None" and rj: "resolved (?rs ! j) = None"
    using nth_resourcesFrom [OF i, of newURL base Map.empty 0]
      nth_resourcesFrom [OF assms(2), of newURL base Map.empty 0] assms(3,5)
    by (simp_all add: resources_def)
  have idi: "rid (?rs ! i) = fallbackKey (raws ! i) i"
    using nth_resourcesFrom [OF i, of newURL base Map.empty 0] assms(3)
    by (simp add: resources_def resourceKey_def truthy_def)
  have first: "\<forall>k<i. resolveUrl newURL base (raw_raw (raws ! k)) \<noteq> resolveUrl newURL base (raw_raw (raws ! i))"
    using assms(3,4) by simp
  have di: "duplicateOf (?rs ! i) = None"
    unfolding resources_def
    by (rule dup_first [OF i _ first]) simp
  have "duplicateOf (?rs ! j)
     = Some (resourceKey (resolveUrl newURL base (raw_raw (raws ! i))) (raws ! i) (0 + i))"
    unfolding resources_def
    by (rule dup_later [OF assms(1,2) _ first]) (simp_all add: assms(3,5))
  then have dj: "duplicateOf (?rs ! j) = Some (fallbackKey (raws ! i) i)"
    using assms(3) by (simp add: resourceKey_def truthy_def)
  have fi: "finalResources ?rs checked ! i = assignStatus (?rs ! i) Unresolved ''Could not resolve URL''"
    using li ri by (simp add: nth_finalResources finalResource_def truthy_def)
  have fj: "finalResources ?rs checked ! j = assignStatus (?rs ! j) Unresolved ''Could not resolve URL''"
    using lj rj by (simp add: nth_finalResources finalResource_def truthy_def)
  show ?thesis
    unfolding fi fj using ri rj idi di dj by (simp add: assignStatus_def)
qed

theorem C10_unresolved_duplicates_witness:
  "(1::nat) < 2 \<and> 2 < length [exAbout, exBadAnchor, exBadImage] \<and>
   resolveUrl exURL exBase (raw_raw ([exAbout, exBadAnchor, exBadImage] ! 1)) = None \<and>
   resolveUrl exURL exBase (raw_raw ([exAbout, exBadAnchor, exBadImage] ! 0)) \<noteq> None \<and>
   resolveUrl exURL exBase (raw_raw ([exAbout, exBadAnchor, exBadImage] ! 2)) = None \<and>
   rid (finalResources (resources exURL exBase [exAbout, exBadAnchor, exBadImage]) [] ! 1)
     = ''anchor:http://[:1'' \<and>
   duplicateOf (finalResources (resources exURL exBase [exAbout, exBadAnchor, exBadImage]) [] ! 2)
     = Some ''anchor:http://[:1'' \<and>
   duplicateOf (finalResources (resources exURL exBase [exAbout, exBadAnchor, exBadImage]) [] ! 1) = None"
proof -
  let ?raws = "[exAbout, exBadAnchor, exBadImage]"
  have a: "(1::nat) < 2" by simp
  have b: "2 < length ?raws" by simp
  have c: "resolveUrl exURL exBase (raw_raw (?raws ! 1)) = None"
    by (simp add: resolveUrl_def exURL_def exBadAnchor_def)
  have d: "\<forall>k<1. resolveUrl exURL exBase (raw_raw (?raws ! k)) \<noteq> None"
    by (simp add: resolveUrl_def exURL_def exAbout_def)
  have e: "resolveUrl exURL exBase (raw_raw (?raws ! 2)) = None"
    by (simp add: resolveUrl_def exURL_def exBadImage_def)
  have k: "fallbackKey (?raws ! 1) 1 = ''anchor:http://[:1''"
    by code_simp
  from C10_unresolved_duplicates [OF a b c d e, of "[]"] a b c d e k show ?thesis
    by simp
qed

section \<open>The keys of the resource list\<close>

lemma skip_about: "\<not> isSkippableHref ''/about''" by code_simp
lemma skip_contact: "\<not> isSkippableHref ''/contact''" by code_simp
lemma skip_bad: "\<not> isSkippableHref ''http://[''" by code_simp

lemma exTwoAbout_eq:
  "resources exURL exBase [exAbout, exAbout] =
   [\<lparr>rid = ''https://example.com/about'', rtype = Anchor, raw = ''/about'',
     resolved = Some ''https://example.com/about'', skippable = False, duplicateOf = None\<rparr>,
    \<lparr>rid = ''https://example.com/about'', rtype = Anchor, raw = ''/about'',
     resolved = Some ''https://example.com/about'', skippable = False,
     duplicateOf = Some ''https://example.com/about''\<rparr>]"
  by (simp add: resources_def Let_def resolveUrl_def exURL_def exBase_def exAbout_def
      resourceKey_def truthy_def skip_about)


lemma key_bad_anchor: "fallbackKey exBadAnchor 2 = ''anchor:http://[:2''" by code_simp
lemma key_bad_image: "fallbackKey exBadImage 3 = ''image:http://[:3''" by code_simp

lemma exFour_eq:
  "resources exURL exBase [exAbout, exContact, exBadAnchor, exBadImage] =
   [\<lparr>rid = ''https://example.com/about'', rtype = Anchor, raw = ''/about'',
     resolved = Some ''https://example.com/about'', skippable = False, duplicateOf = None\<rparr>,
    \<lparr>rid = ''https://example.com/contact'', rtype = Anchor, raw = ''/contact'',
     resolved = Some ''https://example.com/contact'', skippable = False, duplicateOf = None\<rparr>,
    \<lparr>rid = ''anchor:http://[:2'', rtype = Anchor, raw = ''http://['',
     resolved = None, skippable = False, duplicateOf = None\<rparr>,
    \<lparr>rid = ''image:http://[:3'', rtype = Image, raw = ''http://['',
     resolved = None, skippable = False, duplicateOf = Some ''anchor:http://[:2''\<rparr>]"
proof -
  have r: "resolveUrl exURL exBase (raw_raw exAbout) = Some ''https://example.com/about''"
    "resolveUrl exURL exBase (raw_raw exContact) = Some ''https://example.com/contact''"
    "resolveUrl exURL exBase (raw_raw exBadAnchor) = None"
    "resolveUrl exURL exBase (raw_raw exBadImage) = None"
    by (simp_all add: resolveUrl_def exURL_def exBase_def exAbout_def exContact_def
        exBadAnchor_def exBadImage_def)
  have s: "\<not> isSkippableHref (raw_raw exAbout)" "\<not> isSkippableHref (raw_raw exContact)"
    "\<not> isSkippableHref (raw_raw exBadAnchor)" "\<not> isSkippableHref (raw_raw exBadImage)"
    by (simp_all add: exAbout_def exContact_def exBadAnchor_def exBadImage_def
        skip_about skip_contact skip_bad)
  have f: "raw_raw exAbout = ''/about''" "raw_raw exContact = ''/contact''"
    "raw_raw exBadAnchor = ''http://[''" "raw_raw exBadImage = ''http://[''"
    "raw_type exAbout = Anchor" "raw_type exContact = Anchor"
    "raw_type exBadAnchor = Anchor" "raw_type exBadImage = Image"
    by (simp_all add: exAbout_def exContact_def exBadAnchor_def exBadImage_def)
  have k: "fallbackKey exBadAnchor (Suc (Suc 0)) = ''anchor:http://[:2''"
    "fallbackKey exBadImage (Suc (Suc (Suc 0))) = ''image:http://[:3''"
    using key_bad_anchor key_bad_image by (simp_all add: numeral_2_eq_2 numeral_3_eq_3)
  show ?thesis
    unfolding resources_def
    by (simp add: Let_def r s resourceKey_def truthy_def k) (simp add: f)
qed


lemma nth_resources:
  assumes "i < length raws"
  shows "resolved (resources newURL base raws ! i) = resolveUrl newURL base (raw_raw (raws ! i))"
    and "rid (resources newURL base raws ! i)
      = resourceKey (resolveUrl newURL base (raw_raw (raws ! i))) (raws ! i) i"
    and "skippable (resources newURL base raws ! i) = isSkippableHref (raw_raw (raws ! i))"
  using nth_resourcesFrom [OF assms, of newURL base Map.empty 0]
  by (simp_all add: resources_def)

lemma length_resources [simp]: "length (resources newURL base raws) = length raws"
  by (simp add: resources_def)

lemma rid_truthy:
  assumes "i < length raws" and "truthy (resolved (resources newURL base raws ! i))"
  shows "rid (resources newURL base raws ! i) = the (resolved (resources newURL base raws ! i))"
  using assms by (simp add: nth_resources resourceKey_def)

lemma rid_falsy:
  assumes "i < length raws" and "\<not> truthy (resolved (resources newURL base raws ! i))"
  shows "rid (resources newURL base raws ! i) = fallbackKey (raws ! i) i"
  using assms by (simp add: nth_resources resourceKey_def)

lemma truthy_the_eq: "truthy a \<Longrightarrow> truthy b \<Longrightarrow> (the a = the b) = (a = b)"
  by (auto simp: truthy_def split: option.splits)

lemma dup_origin:
  assumes i: "i < length raws"
    and d: "duplicateOf (resources newURL base raws ! i) = Some d"
  shows "\<exists>j<i. resolved (resources newURL base raws ! j) = resolved (resources newURL base raws ! i) \<and>
           rid (resources newURL base raws ! j) = d"
proof -
  define res where "res k = resolveUrl newURL base (raw_raw (raws ! k))" for k
  define j where "j = (LEAST k. res k = res i)"
  have ji: "j \<le> i" unfolding j_def by (rule Least_le) (rule refl)
  have rj: "res j = res i" unfolding j_def by (rule LeastI [of _ i]) (rule refl)
  have first: "\<forall>k<j. res k \<noteq> res j"
  proof (intro allI impI)
    fix k assume "k < j"
    then have "\<not> (res k = res i)" unfolding j_def by (rule not_less_Least)
    with rj show "res k \<noteq> res j" by simp
  qed
  have "j \<noteq> i"
  proof
    assume ji': "j = i"
    have "duplicateOf (resourcesFrom newURL base Map.empty 0 raws ! i) = None"
      using first by (intro dup_first [OF i]) (simp_all add: ji' res_def)
    with d show False
      by (simp add: resources_def)
  qed
  with ji have lt: "j < i" by simp
  then have jl: "j < length raws" using i by simp
  have "duplicateOf (resourcesFrom newURL base Map.empty 0 raws ! i)
      = Some (resourceKey (resolveUrl newURL base (raw_raw (raws ! j))) (raws ! j) (0 + j))"
    using first rj by (intro dup_later [OF lt i]) (simp_all add: res_def)
  with d have "resourceKey (resolveUrl newURL base (raw_raw (raws ! j))) (raws ! j) j = d"
    by (simp add: resources_def)
  then have "rid (resources newURL base raws ! j) = d"
    by (simp add: nth_resources [OF jl])
  moreover have "resolved (resources newURL base raws ! j) = resolved (resources newURL base raws ! i)"
    using rj by (simp add: nth_resources [OF jl] nth_resources [OF i] res_def)
  ultimately show ?thesis using lt by blast
qed

section \<open>Back-references of duplicates\<close>

lemma assignFound_eq: "assignFound r found = found"
  by (simp add: assignFound_def)

lemma itemOf_fields [simp]:
  "rid (itemOf c) = rid c" "resolved (itemOf c) = resolved c"
  "skippable (itemOf c) = skippable c" "duplicateOf (itemOf c) = duplicateOf c"
  by (simp_all add: itemOf_def)

lemma assignStatus_fields [simp]:
  "rid (assignStatus r st n) = rid r" "resolved (assignStatus r st n) = resolved r"
  "duplicateOf (assignStatus r st n) = duplicateOf r" "status (assignStatus r st n) = st"
  "httpStatus (assignStatus r st n) = Undefined" "timeMs (assignStatus r st n) = Undefined"
  by (simp_all add: assignStatus_def)

lemma checked_item:
  assumes "checkResources (toCheckLimited rs) checked" and "c \<in> set checked"
  shows "itemOf c \<in> set rs \<and> truthy (resolved c) \<and> \<not> skippable c"
proof -
  from checkResources_sound [OF assms(1)]
  have "mset (map itemOf checked) = mset (toCheckLimited rs)" by simp
  then have "set (map itemOf checked) = set (toCheckLimited rs)" by (rule mset_eq_setD)
  with assms(2) have "itemOf c \<in> set (toCheckLimited rs)" by auto
  then have "itemOf c \<in> set (toCheck rs)"
    unfolding toCheckLimited_def by (rule in_set_takeD)
  then show ?thesis by (simp add: toCheck_def)
qed

lemma final_id_resolved:
  assumes ck: "checkResources (toCheckLimited (resources newURL base raws)) checked"
    and k: "k < length raws"
  shows "rid (finalResources (resources newURL base raws) checked ! k) = rid (resources newURL base raws ! k)"
    and "resolved (finalResources (resources newURL base raws) checked ! k)
      = resolved (resources newURL base raws ! k)"
proof -
  let ?rs = "resources newURL base raws"
  let ?r = "?rs ! k"
  have both: "rid (finalResource (checkedMap checked) ?r) = rid ?r \<and>
      resolved (finalResource (checkedMap checked) ?r) = resolved ?r"
  proof (cases "checkedMap checked (resolved ?r)")
    case None
    then show ?thesis by (simp add: finalResource_def)
  next
    case (Some found)
    from checkedMap_Some [OF Some] have f: "found \<in> set checked" "resolved found = resolved ?r"
      by simp_all
    show ?thesis
    proof (cases "truthy (resolved ?r) \<and> \<not> skippable ?r")
      case False
      then show ?thesis by (auto simp: finalResource_def)
    next
      case True
      from checked_item [OF ck f(1)] have "itemOf found \<in> set ?rs" by simp
      then obtain m where m: "m < length raws" "?rs ! m = itemOf found"
        by (auto simp: in_set_conv_nth)
      from m(2) f(2) have rm: "resolved (?rs ! m) = resolved ?r" by simp
      with True have "truthy (resolved (?rs ! m))" by simp
      from rid_truthy [OF m(1) this] rm have "rid (?rs ! m) = the (resolved ?r)" by simp
      moreover from True rid_truthy [OF k] have "rid ?r = the (resolved ?r)" by simp
      ultimately have "rid found = rid ?r" using m(2) by simp
      with f(2) Some True show ?thesis
        by (simp add: finalResource_def assignFound_eq)
    qed
  qed
  from both k show "rid (finalResources ?rs checked ! k) = rid ?r"
    by (simp add: nth_finalResources)
  from both k show "resolved (finalResources ?rs checked ! k) = resolved ?r"
    by (simp add: nth_finalResources)
qed

lemma final_unmerged:
  assumes ck: "checkResources (toCheckLimited rs) checked"
    and st: "status (finalResource (checkedMap checked) r) \<noteq> Ok"
      "status (finalResource (checkedMap checked) r) \<noteq> Error"
  shows "\<exists>s n. finalResource (checkedMap checked) r = assignStatus r s n"
proof (cases "truthy (resolved r) \<and> \<not> skippable r")
  case False
  then show ?thesis by (auto simp: finalResource_def)
next
  case True
  show ?thesis
  proof (cases "checkedMap checked (resolved r)")
    case None
    with True show ?thesis by (auto simp: finalResource_def)
  next
    case (Some found)
    from checkedMap_Some [OF Some] have "found \<in> set checked" by simp
    with checkResources_sound [OF ck] have "status found = Ok \<or> status found = Error" by blast
    with st Some True show ?thesis by (simp add: finalResource_def assignFound_eq)
  qed
qed

lemma checkResources_Nil: "checkResources [] []"
  using checkResources_in_order [of "[]" "probeItem netOk 0"] by simp

lemma exEmptyBad_eq:
  "resources exURL exBase [exEmpty, exEmpty, exBadAnchor, exBadImage] =
   [\<lparr>rid = ''https://example.com/'', rtype = Anchor, raw = [],
     resolved = Some ''https://example.com/'', skippable = True, duplicateOf = None\<rparr>,
    \<lparr>rid = ''https://example.com/'', rtype = Anchor, raw = [],
     resolved = Some ''https://example.com/'', skippable = True,
     duplicateOf = Some ''https://example.com/''\<rparr>,
    \<lparr>rid = ''anchor:http://[:2'', rtype = Anchor, raw = ''http://['',
     resolved = None, skippable = False, duplicateOf = None\<rparr>,
    \<lparr>rid = ''image:http://[:3'', rtype = Image, raw = ''http://['',
     resolved = None, skippable = False, duplicateOf = Some ''anchor:http://[:2''\<rparr>]"
proof -
  have r: "resolveUrl exURL exBase (raw_raw exEmpty) = Some ''https://example.com/''"
    "resolveUrl exURL exBase (raw_raw exBadAnchor) = None"
    "resolveUrl exURL exBase (raw_raw exBadImage) = None"
    by (simp_all add: resolveUrl_def exURL_def exBase_def exEmpty_def exBadAnchor_def exBadImage_def)
  have "isSkippableHref []" by (simp add: isSkippableHref_def)
  then have s: "isSkippableHref (raw_raw exEmpty)"
    "\<not> isSkippableHref (raw_raw exBadAnchor)" "\<not> isSkippableHref (raw_raw exBadImage)"
    by (simp_all add: exEmpty_def exBadAnchor_def exBadImage_def skip_bad)
  have f: "raw_raw exEmpty = []"
    "raw_raw exBadAnchor = ''http://[''" "raw_raw exBadImage = ''http://[''"
    "raw_type exEmpty = Anchor" "raw_type exBadAnchor = Anchor" "raw_type exBadImage = Image"
    by (simp_all add: exEmpty_def exBadAnchor_def exBadImage_def)
  have k: "fallbackKey exBadAnchor (Suc (Suc 0)) = ''anchor:http://[:2''"
    "fallbackKey exBadImage (Suc (Suc (Suc 0))) = ''image:http://[:3''"
    using key_bad_anchor key_bad_image by (simp_all add: numeral_2_eq_2 numeral_3_eq_3)
  show ?thesis
    unfolding resources_def
    by (simp add: Let_def r s resourceKey_def truthy_def k) (simp add: f)
qed

lemma exEmptyBad_final:
  "map (\<lambda>f. (rid f, resolved f, status f, duplicateOf f))
     (finalResources (resources exURL exBase [exEmpty, exEmpty, exBadAnchor, exBadImage]) []) =
   [(''https://example.com/'', Some ''https://example.com/'', Skipped, None),
    (''https://example.com/'', Some ''https://example.com/'', Skipped, Some ''https://example.com/''),
    (''anchor:http://[:2'', None, Unresolved, None),
    (''image:http://[:3'', None, Unresolved, Some ''anchor:http://[:2'')]"
  by (simp add: exEmptyBad_eq finalResources_def finalResource_def checkedMap_def truthy_def)

lemma exEmptyBad_toCheck:
  "toCheckLimited (resources exURL exBase [exEmpty, exEmpty, exBadAnchor, exBadImage]) = []"
  by (simp add: exEmptyBad_eq toCheckLimited_def toCheck_def truthy_def)

lemma exTwoEmpty_eq:
  "resources exURL exBase [exEmpty, exEmpty] =
   [\<lparr>rid = ''https://example.com/'', rtype = Anchor, raw = [],
     resolved = Some ''https://example.com/'', skippable = True, duplicateOf = None\<rparr>,
    \<lparr>rid = ''https://example.com/'', rtype = Anchor, raw = [],
     resolved = Some ''https://example.com/'', skippable = True,
     duplicateOf = Some ''https://example.com/''\<rparr>]"
  by (simp add: resources_def Let_def resolveUrl_def exURL_def exBase_def exEmpty_def
      resourceKey_def truthy_def isSkippableHref_def)

text \<open>
  C2 (amended): take an entry of the final list that carries no merged probe result
  (its status is \<open>unresolved\<close>, \<open>skipped\<close> or \<open>not_checked\<close>). If its \<open>duplicateOf\<close> is
  set, the value is the id of an entry strictly earlier in discovery order that has the
  same resolved value. It differs from the entry's own id when the reference did not
  resolve, and it is the entry's own id when the reference resolved, because the id of
  a resolved reference is its resolved URL.
\<close>

theorem C2_duplicateOf:
  assumes "checkResources (toCheckLimited (resources newURL base raws)) checked"
    and "i < length raws"
    and "status (finalResources (resources newURL base raws) checked ! i) = Unresolved \<or>
         status (finalResources (resources newURL base raws) checked ! i) = Skipped \<or>
         status (finalResources (resources newURL base raws) checked ! i) = Not_checked"
    and "duplicateOf (finalResources (resources newURL base raws) checked ! i) = Some d"
  shows "(\<exists>j<i. rid (finalResources (resources newURL base raws) checked ! j) = d \<and>
            resolved (finalResources (resources newURL base raws) checked ! j)
              = resolved (finalResources (resources newURL base raws) checked ! i)) \<and>
         (d = rid (finalResources (resources newURL base raws) checked ! i)
            \<longleftrightarrow> truthy (resolved (finalResources (resources newURL base raws) checked ! i)))"
proof -
  let ?rs = "resources newURL base raws"
  let ?fs = "finalResources ?rs checked"
  have fi: "?fs ! i = finalResource (checkedMap checked) (?rs ! i)"
    using assms(2) by (simp add: nth_finalResources)
  from assms(3) have "status (?fs ! i) \<noteq> Ok" "status (?fs ! i) \<noteq> Error" by auto
  with final_unmerged [OF assms(1), of "?rs ! i"] fi
  obtain s n where "?fs ! i = assignStatus (?rs ! i) s n" by auto
  with assms(4) have di: "duplicateOf (?rs ! i) = Some d" by simp
  from dup_origin [OF assms(2) di] obtain j where j: "j < i"
    "resolved (?rs ! j) = resolved (?rs ! i)" "rid (?rs ! j) = d" by blast
  from j(1) assms(2) have jl: "j < length raws" by simp
  note idi = final_id_resolved [OF assms(1,2)] and idj = final_id_resolved [OF assms(1) jl]
  have first: "\<exists>j<i. rid (?fs ! j) = d \<and> resolved (?fs ! j) = resolved (?fs ! i)"
    using j idi idj by auto
  have second: "d = rid (?fs ! i) \<longleftrightarrow> truthy (resolved (?fs ! i))"
  proof (cases "truthy (resolved (?rs ! i))")
    case True
    with j(2) have "truthy (resolved (?rs ! j))" by simp
    from rid_truthy [OF jl this] rid_truthy [OF assms(2) True] j(2,3) True idi
    show ?thesis by simp
  next
    case False
    with j(2) have "\<not> truthy (resolved (?rs ! j))" by simp
    from rid_falsy [OF jl this] rid_falsy [OF assms(2) False] j(3)
    have "d = fallbackKey (raws ! j) j" "rid (?rs ! i) = fallbackKey (raws ! i) i" by simp_all
    moreover have "fallbackKey (raws ! j) j \<noteq> fallbackKey (raws ! i) i"
      using fallbackKey_inj [of "raws ! j" j "raws ! i" i] j(1) by auto
    ultimately show ?thesis using False idi by simp
  qed
  from first second show ?thesis by simp
qed

theorem C2_duplicateOf_witness:
  "checkResources (toCheckLimited (resources exURL exBase [exEmpty, exEmpty, exBadAnchor, exBadImage])) [] \<and>
   1 < length [exEmpty, exEmpty, exBadAnchor, exBadImage] \<and>
   status (finalResources (resources exURL exBase [exEmpty, exEmpty, exBadAnchor, exBadImage]) [] ! 1) = Skipped \<and>
   duplicateOf (finalResources (resources exURL exBase [exEmpty, exEmpty, exBadAnchor, exBadImage]) [] ! 1)
     = Some ''https://example.com/'' \<and>
   rid (finalResources (resources exURL exBase [exEmpty, exEmpty, exBadAnchor, exBadImage]) [] ! 0)
     = ''https://example.com/'' \<and>
   (''https://example.com/''
      = rid (finalResources (resources exURL exBase [exEmpty, exEmpty, exBadAnchor, exBadImage]) [] ! 1)
    \<longleftrightarrow> truthy (resolved (finalResources (resources exURL exBase [exEmpty, exEmpty, exBadAnchor, exBadImage]) [] ! 1))) \<and>
   3 < length [exEmpty, exEmpty, exBadAnchor, exBadImage] \<and>
   status (finalResources (resources exURL exBase [exEmpty, exEmpty, exBadAnchor, exBadImage]) [] ! 3) = Unresolved \<and>
   duplicateOf (finalResources (resources exURL exBase [exEmpty, exEmpty, exBadAnchor, exBadImage]) [] ! 3)
     = Some ''anchor:http://[:2'' \<and>
   rid (finalResources (resources exURL exBase [exEmpty, exEmpty, exBadAnchor, exBadImage]) [] ! 2)
     = ''anchor:http://[:2'' \<and>
   (''anchor:http://[:2''
      = rid (finalResources (resources exURL exBase [exEmpty, exEmpty, exBadAnchor, exBadImage]) [] ! 3)
    \<longleftrightarrow> truthy (resolved (finalResources (resources exURL exBase [exEmpty, exEmpty, exBadAnchor, exBadImage]) [] ! 3)))"
proof -
  let ?raws = "[exEmpty, exEmpty, exBadAnchor, exBadImage]"
  let ?fs = "finalResources (resources exURL exBase ?raws) []"
  have ck: "checkResources (toCheckLimited (resources exURL exBase ?raws)) []"
    by (simp add: exEmptyBad_toCheck checkResources_Nil)
  have l: "1 < length ?raws" "3 < length ?raws" by simp_all
  have len: "length ?fs = 4" by simp
  have vals: "rid (?fs ! 0) = ''https://example.com/''"
    "status (?fs ! 1) = Skipped" "duplicateOf (?fs ! 1) = Some ''https://example.com/''"
    "rid (?fs ! 2) = ''anchor:http://[:2''"
    "status (?fs ! 3) = Unresolved" "duplicateOf (?fs ! 3) = Some ''anchor:http://[:2''"
    using exEmptyBad_final [THEN arg_cong, of "\<lambda>xs. xs ! 0"]
      exEmptyBad_final [THEN arg_cong, of "\<lambda>xs. xs ! 1"]
      exEmptyBad_final [THEN arg_cong, of "\<lambda>xs. xs ! 2"]
      exEmptyBad_final [THEN arg_cong, of "\<lambda>xs. xs ! 3"]
    by (simp_all add: nth_map [of _ ?fs])
  have s1: "status (?fs ! 1) = Unresolved \<or> status (?fs ! 1) = Skipped \<or> status (?fs ! 1) = Not_checked"
    and s3: "status (?fs ! 3) = Unresolved \<or> status (?fs ! 3) = Skipped \<or> status (?fs ! 3) = Not_checked"
    using vals by simp_all
  from C2_duplicateOf [OF ck l(1) s1 vals(3)] C2_duplicateOf [OF ck l(2) s3 vals(6)] ck l vals
  show ?thesis by simp
qed

theorem C2_duplicateOf_counterexample:
  "checkResources (toCheckLimited (resources exURL exBase [exEmpty, exEmpty])) [] \<and>
   rid (finalResources (resources exURL exBase [exEmpty, exEmpty]) [] ! 1) = ''https://example.com/'' \<and>
   duplicateOf (finalResources (resources exURL exBase [exEmpty, exEmpty]) [] ! 1)
     = Some (rid (finalResources (resources exURL exBase [exEmpty, exEmpty]) [] ! 1))"
  by (simp add: exTwoEmpty_eq toCheckLimited_def toCheck_def checkResources_Nil
      finalResources_def finalResource_def checkedMap_def truthy_def)

section \<open>Skippable references in the final list\<close>

lemma char_of_code: "n < 256 \<Longrightarrow> c = char_of n \<longleftrightarrow> of_char c = n" for n :: nat
  by (auto simp: char_of_eq_iff take_bit_eq_mod)

lemma isWhiteSpace_spec: "isWhiteSpace c \<longleftrightarrow> c \<in> set specWhiteSpace"
  by (auto simp: isWhiteSpace_def specWhiteSpace_def char_of_code)

lemma specCapitals_codes:
  "specCapitals = map char_of ([65..<91] @ [192..<215] @ [216..<223 :: nat])"
  by (simp add: specCapitals_def char_of_code)

lemma specSmalls_codes:
  "specSmalls = map (\<lambda>c. char_of (of_char c + 32 :: nat)) specCapitals"
  by (simp add: specCapitals_def specSmalls_def char_of_code)

lemma in_specCapitals:
  "c \<in> set specCapitals \<longleftrightarrow>
     (65 \<le> (of_char c :: nat) \<and> (of_char c :: nat) \<le> 90) \<or>
     (192 \<le> (of_char c :: nat) \<and> (of_char c :: nat) \<le> 222 \<and> (of_char c :: nat) \<noteq> 215)"
proof -
  let ?S = "{65..<91} \<union> {192..<215} \<union> {216..<223 :: nat}"
  have "c \<in> char_of ` S \<longleftrightarrow> of_char c \<in> S" if "S \<subseteq> {0..<256}" for S :: "nat set"
    using that by (auto simp: image_iff char_of_code subset_eq)
  from this [of ?S] have "c \<in> char_of ` ?S \<longleftrightarrow> (of_char c :: nat) \<in> ?S"
    by simp
  moreover have "set specCapitals = char_of ` ?S"
    unfolding specCapitals_codes by (simp only: set_map set_append set_upt image_Un Un_assoc)
  ultimately have "c \<in> set specCapitals \<longleftrightarrow> (of_char c :: nat) \<in> ?S" by simp
  then show ?thesis by auto
qed

lemma lowerChar_spec: "lowerChar c = specLowerCased c"
proof -
  have "map_of (zip specCapitals specSmalls) c
      = (if c \<in> set specCapitals then Some (char_of (of_char c + 32 :: nat)) else None)"
    unfolding specSmalls_codes by (simp only: map_of_zip_map)
  then show ?thesis
    by (simp only: specLowerCased_def lowerChar_def in_specCapitals Let_def) simp
qed


lemma trim_decomposition:
  "\<exists>pre post. href = pre @ trim href @ post \<and>
     (\<forall>c\<in>set pre. isWhiteSpace c) \<and> (\<forall>c\<in>set post. isWhiteSpace c) \<and>
     (trim href = [] \<or> (\<not> isWhiteSpace (hd (trim href)) \<and> \<not> isWhiteSpace (last (trim href))))"
proof -
  define d where "d = dropWhile isWhiteSpace href"
  define e where "e = dropWhile isWhiteSpace (rev d)"
  have t: "trim href = rev e" by (simp add: trim_def d_def e_def)
  have h: "href = takeWhile isWhiteSpace href @ d" by (simp add: d_def)
  have "rev d = takeWhile isWhiteSpace (rev d) @ e" by (simp add: e_def)
  then have "rev (rev d) = rev (takeWhile isWhiteSpace (rev d) @ e)" by simp
  then have dd: "d = rev e @ rev (takeWhile isWhiteSpace (rev d))" by simp
  have pre: "\<forall>c\<in>set (takeWhile isWhiteSpace href). isWhiteSpace c"
    by (auto dest: set_takeWhileD)
  have post: "\<forall>c\<in>set (rev (takeWhile isWhiteSpace (rev d))). isWhiteSpace c"
    by (auto dest: set_takeWhileD)
  have ends: "\<not> isWhiteSpace (hd (rev e)) \<and> \<not> isWhiteSpace (last (rev e))" if ne: "rev e \<noteq> []"
  proof -
    from ne have ene: "e \<noteq> []" by simp
    then have "\<not> isWhiteSpace (hd e)" unfolding e_def by (rule hd_dropWhile)
    with ene have l: "\<not> isWhiteSpace (last (rev e))" by (simp add: last_rev)
    from ne dd have dne: "d \<noteq> []" by auto
    then have "\<not> isWhiteSpace (hd d)" unfolding d_def by (rule hd_dropWhile)
    moreover from dd ne have "hd d = hd (rev e)" by (metis hd_append2)
    ultimately show ?thesis using l by simp
  qed
  have "href = takeWhile isWhiteSpace href @ trim href @ rev (takeWhile isWhiteSpace (rev d))"
    using h dd t by simp
  with pre post ends t show ?thesis by metis
qed

lemma trim_unique:
  assumes "href = pre @ core @ post"
    and "\<forall>c\<in>set pre. isWhiteSpace c" and "\<forall>c\<in>set post. isWhiteSpace c"
    and "core = [] \<or> (\<not> isWhiteSpace (hd core) \<and> \<not> isWhiteSpace (last core))"
  shows "trim href = core"
proof (cases "core = []")
  case True
  with assms have "\<forall>c\<in>set href. isWhiteSpace c" by auto
  then have dw: "dropWhile isWhiteSpace href = []" by (simp add: dropWhile_eq_Nil_conv)
  show ?thesis unfolding trim_def dw using True by simp
next
  case False
  with assms(4) have hd: "\<not> isWhiteSpace (hd core)" and la: "\<not> isWhiteSpace (last core)"
    by simp_all
  from False hd have "dropWhile isWhiteSpace (core @ post) = core @ post"
    by (cases core) simp_all
  with assms(1,2) have d: "dropWhile isWhiteSpace href = core @ post"
    by (simp add: dropWhile_append2)
  from False la have r: "dropWhile isWhiteSpace (rev core) = rev core"
    by (cases "rev core") (simp_all add: last_rev [symmetric] hd_rev)
  have "dropWhile isWhiteSpace (rev post @ rev core) = dropWhile isWhiteSpace (rev core)"
    using assms(3) by (intro dropWhile_append2) simp
  with r have "dropWhile isWhiteSpace (rev (core @ post)) = rev core" by simp
  then show ?thesis unfolding trim_def d by simp
qed

lemma specTrimmed_trim: "specTrimmed href core \<longleftrightarrow> core = trim href"
proof
  assume "specTrimmed href core"
  then obtain pre post where "href = pre @ core @ post"
    "\<forall>c\<in>set pre. isWhiteSpace c" "\<forall>c\<in>set post. isWhiteSpace c"
    "core = [] \<or> (\<not> isWhiteSpace (hd core) \<and> \<not> isWhiteSpace (last core))"
    by (auto simp: specTrimmed_def isWhiteSpace_spec)
  from trim_unique [OF this] show "core = trim href" by simp
next
  assume "core = trim href"
  with trim_decomposition [of href] show "specTrimmed href core"
    by (auto simp: specTrimmed_def isWhiteSpace_spec)
qed

lemma isSkippableHref_spec: "isSkippableHref href = skippableBySpec href"
proof -
  have low: "toLowerCase s = map specLowerCased s" for s
    by (simp add: toLowerCase_def lowerChar_spec)
  have spec: "skippableBySpec href =
      (let l = toLowerCase (trim href) in
         l = [] \<or> l = ''#'' \<or> prefix ''javascript:'' l \<or> prefix ''mailto:'' l \<or> prefix ''tel:'' l)"
    by (simp add: skippableBySpec_def specTrimmed_trim low)
  show ?thesis
  proof (cases "href = []")
    case True
    then show ?thesis
      unfolding spec by (simp add: isSkippableHref_def trim_def toLowerCase_def)
  next
    case False
    then show ?thesis
      unfolding spec by (auto simp: isSkippableHref_def startsWith_def Let_def)
  qed
qed

lemma skippable_not_toCheck:
  assumes "i < length raws" and "isSkippableHref (raw_raw (raws ! i))"
  shows "resources newURL base raws ! i \<notin> set (toCheck (resources newURL base raws))"
    and "resources newURL base raws ! i \<notin> set (toCheckLimited (resources newURL base raws))"
proof -
  from assms have sk: "skippable (resources newURL base raws ! i)"
    by (simp add: nth_resources)
  then show a: "resources newURL base raws ! i \<notin> set (toCheck (resources newURL base raws))"
    by (simp add: toCheck_def)
  show "resources newURL base raws ! i \<notin> set (toCheckLimited (resources newURL base raws))"
    using a in_set_takeD [of "resources newURL base raws ! i" MAX_CHECK "toCheck (resources newURL base raws)"]
    by (auto simp: toCheckLimited_def)
qed

lemma skip_js: "isSkippableHref ''javascript:void(0)''" by code_simp
lemma skip_js_bad: "isSkippableHref ''javascript://[''" by code_simp

lemma exJs_eq:
  "resources exURL exBase [exJsImage, exJsBad] =
   [\<lparr>rid = ''javascript:void(0)'', rtype = Image, raw = ''javascript:void(0)'',
     resolved = Some ''javascript:void(0)'', skippable = True, duplicateOf = None\<rparr>,
    \<lparr>rid = ''anchor:javascript://[:1'', rtype = Anchor, raw = ''javascript://['',
     resolved = None, skippable = True, duplicateOf = None\<rparr>]"
proof -
  have r: "resolveUrl exURL exBase (raw_raw exJsImage) = Some ''javascript:void(0)''"
    "resolveUrl exURL exBase (raw_raw exJsBad) = None"
    by (simp_all add: resolveUrl_def exURL_def exBase_def exJsImage_def exJsBad_def)
  have s: "isSkippableHref (raw_raw exJsImage)" "isSkippableHref (raw_raw exJsBad)"
    by (simp_all add: exJsImage_def exJsBad_def skip_js skip_js_bad)
  have f: "raw_raw exJsImage = ''javascript:void(0)''" "raw_raw exJsBad = ''javascript://[''"
    "raw_type exJsImage = Image" "raw_type exJsBad = Anchor"
    by (simp_all add: exJsImage_def exJsBad_def)
  have k: "fallbackKey exJsBad (Suc 0) = ''anchor:javascript://[:1''" by code_simp
  show ?thesis
    unfolding resources_def
    by (simp add: Let_def r s resourceKey_def truthy_def k) (simp add: f)
qed

text \<open>
  C8 (amended): \<open>isSkippableHref\<close> is the contract of the specification: a reference is
  skippable exactly when what is left of it after the white space at both ends is taken
  away is, in small letters, empty, \<open>#\<close>, or begins with \<open>javascript:\<close>, \<open>mailto:\<close> or
  \<open>tel:\<close>. A skippable reference is never among the items to check, so it is never
  probed and its final entry has no probe fields. Its final status is \<open>skipped\<close> when it
  resolves to a URL; when its resolution fails the test for an unresolved reference
  comes first and its status is \<open>unresolved\<close>.
\<close>

theorem C8_skippable:
  "isSkippableHref href = skippableBySpec href \<and>
   (i < length raws \<and> isSkippableHref (raw_raw (raws ! i)) \<longrightarrow>
      resources newURL base raws ! i \<notin> set (toCheck (resources newURL base raws)) \<and>
      resources newURL base raws ! i \<notin> set (toCheckLimited (resources newURL base raws)) \<and>
      status (finalResources (resources newURL base raws) checked ! i)
        = (if truthy (resolved (resources newURL base raws ! i)) then Skipped else Unresolved) \<and>
      httpStatus (finalResources (resources newURL base raws) checked ! i) = Undefined \<and>
      timeMs (finalResources (resources newURL base raws) checked ! i) = Undefined)"
proof -
  have "status (finalResources (resources newURL base raws) checked ! i)
        = (if truthy (resolved (resources newURL base raws ! i)) then Skipped else Unresolved) \<and>
      httpStatus (finalResources (resources newURL base raws) checked ! i) = Undefined \<and>
      timeMs (finalResources (resources newURL base raws) checked ! i) = Undefined"
    if "i < length raws" and "isSkippableHref (raw_raw (raws ! i))"
  proof -
    from that have "skippable (resources newURL base raws ! i)" by (simp add: nth_resources)
    with that(1) show ?thesis
      by (simp add: nth_finalResources finalResource_def)
  qed
  with isSkippableHref_spec skippable_not_toCheck show ?thesis by blast
qed

theorem C8_skippable_witness:
  "skippableBySpec [char_of (160::nat), CHR ''#''] \<and>
   skippableBySpec ''  JavaScript:void(0) '' \<and>
   skippableBySpec ''MAILTO:a@example.com'' \<and>
   skippableBySpec [CHR 0x09, CHR ''T'', CHR ''e'', CHR ''L'', CHR '':'', CHR ''1'', CHR 0x0A] \<and>
   \<not> skippableBySpec ''/about'' \<and>
   \<not> skippableBySpec ''x tel:1'' \<and>
   0 < length [exJsImage, exJsBad] \<and> isSkippableHref (raw_raw ([exJsImage, exJsBad] ! 0)) \<and>
   resolved (resources exURL exBase [exJsImage, exJsBad] ! 0) = Some ''javascript:void(0)'' \<and>
   resources exURL exBase [exJsImage, exJsBad] ! 0
     \<notin> set (toCheckLimited (resources exURL exBase [exJsImage, exJsBad])) \<and>
   status (finalResources (resources exURL exBase [exJsImage, exJsBad]) [] ! 0) = Skipped \<and>
   timeMs (finalResources (resources exURL exBase [exJsImage, exJsBad]) [] ! 0) = Undefined \<and>
   1 < length [exJsImage, exJsBad] \<and> isSkippableHref (raw_raw ([exJsImage, exJsBad] ! 1)) \<and>
   resolved (resources exURL exBase [exJsImage, exJsBad] ! 1) = None \<and>
   status (finalResources (resources exURL exBase [exJsImage, exJsBad]) [] ! 1) = Unresolved"
proof -
  let ?raws = "[exJsImage, exJsBad]"
  have e: "isSkippableHref [char_of (160::nat), CHR ''#'']"
    "isSkippableHref ''  JavaScript:void(0) ''"
    "isSkippableHref ''MAILTO:a@example.com''"
    "isSkippableHref [CHR 0x09, CHR ''T'', CHR ''e'', CHR ''L'', CHR '':'', CHR ''1'', CHR 0x0A]"
    "\<not> isSkippableHref ''/about''"
    "\<not> isSkippableHref ''x tel:1''"
    by code_simp+
  have l: "0 < length ?raws" "1 < length ?raws" by simp_all
  have s: "isSkippableHref (raw_raw (?raws ! 0))" "isSkippableHref (raw_raw (?raws ! 1))"
    by (simp_all add: exJsImage_def exJsBad_def skip_js skip_js_bad)
  have r: "resolved (resources exURL exBase ?raws ! 0) = Some ''javascript:void(0)''"
    "resolved (resources exURL exBase ?raws ! 1) = None"
    by (simp_all add: exJs_eq)
  have spec: "skippableBySpec [char_of (160::nat), CHR ''#'']"
    "skippableBySpec ''  JavaScript:void(0) ''"
    "skippableBySpec ''MAILTO:a@example.com''"
    "skippableBySpec [CHR 0x09, CHR ''T'', CHR ''e'', CHR ''L'', CHR '':'', CHR ''1'', CHR 0x0A]"
    "\<not> skippableBySpec ''/about''"
    "\<not> skippableBySpec ''x tel:1''"
    using e C8_skippable [of "[char_of (160::nat), CHR ''#'']" 0 "[]" exURL exBase "[]"]
      C8_skippable [of "''  JavaScript:void(0) ''" 0 "[]" exURL exBase "[]"]
      C8_skippable [of "''MAILTO:a@example.com''" 0 "[]" exURL exBase "[]"]
      C8_skippable [of "[CHR 0x09, CHR ''T'', CHR ''e'', CHR ''L'', CHR '':'', CHR ''1'', CHR 0x0A]" 0 "[]" exURL exBase "[]"]
      C8_skippable [of "''/about''" 0 "[]" exURL exBase "[]"]
      C8_skippable [of "''x tel:1''" 0 "[]" exURL exBase "[]"]
    by blast+
  have rest: "resources exURL exBase ?raws ! 0 \<notin> set (toCheckLimited (resources exURL exBase ?raws)) \<and>
      status (finalResources (resources exURL exBase ?raws) [] ! 0) = Skipped \<and>
      timeMs (finalResources (resources exURL exBase ?raws) [] ! 0) = Undefined \<and>
      status (finalResources (resources exURL exBase ?raws) [] ! 1) = Unresolved"
    using C8_skippable [of "[]" 0 ?raws exURL exBase "[]"] C8_skippable [of "[]" 1 ?raws exURL exBase "[]"]
      l s r by (simp add: truthy_def)
  from spec l s r rest show ?thesis by blast
qed

theorem C8_skippable_counterexample:
  "isSkippableHref (raw_raw exJsBad) \<and>
   toCheckLimited (resources exURL exBase [exJsBad]) = [] \<and>
   checkResources (toCheckLimited (resources exURL exBase [exJsBad])) [] \<and>
   status (finalResources (resources exURL exBase [exJsBad]) [] ! 0) = Unresolved \<and>
   status (finalResources (resources exURL exBase [exJsBad]) [] ! 0) \<noteq> Skipped"
proof -
  have e: "resources exURL exBase [exJsBad] =
     [\<lparr>rid = fallbackKey exJsBad 0, rtype = Anchor, raw = ''javascript://['',
       resolved = None, skippable = True, duplicateOf = None\<rparr>]"
    by (simp add: resources_def Let_def resolveUrl_def exURL_def exBase_def
      resourceKey_def truthy_def skip_js_bad exJsBad_def)
  show ?thesis
    by (simp add: e toCheckLimited_def toCheck_def checkResources_Nil truthy_def
        finalResources_def finalResource_def) (simp add: exJsBad_def skip_js_bad)
qed

section \<open>Duplicates in the final list\<close>

lemma probe_netOk:
  "probeItem netOk now item =
     \<lparr>rid = rid item, rtype = rtype item, raw = raw item, resolved = resolved item,
      skippable = skippable item, duplicateOf = duplicateOf item,
      status = Ok, rnote = None, httpStatus = Val 200, timeMs = Val 50,
      error = None, headers = Some []\<rparr>"
  by (simp add: probeItem_def assignData_def fetchWithHeadThenGet_def netOk_def)

lemma exTwoAbout_toCheck:
  "toCheckLimited (resources exURL exBase [exAbout, exAbout]) = resources exURL exBase [exAbout, exAbout]"
  by (simp add: exTwoAbout_eq toCheckLimited_def toCheck_def truthy_def MAX_CHECK_def)

lemma resources_duplicateOf:
  assumes "i < j" and "j < length raws"
    and "resolved (resources newURL base raws ! j) = resolved (resources newURL base raws ! i)"
    and "\<forall>k<i. resolved (resources newURL base raws ! k) \<noteq> resolved (resources newURL base raws ! i)"
  shows "duplicateOf (resources newURL base raws ! i) = None \<and>
    duplicateOf (resources newURL base raws ! j) = Some (rid (resources newURL base raws ! i))"
proof -
  from assms have i: "i < length raws" by simp
  have eq: "resolveUrl newURL base (raw_raw (raws ! j)) = resolveUrl newURL base (raw_raw (raws ! i))"
    using assms(3) by (simp add: nth_resources [OF i] nth_resources [OF assms(2)])
  have first: "\<forall>k<i. resolveUrl newURL base (raw_raw (raws ! k)) \<noteq> resolveUrl newURL base (raw_raw (raws ! i))"
  proof (intro allI impI)
    fix k assume k: "k < i"
    then have "k < length raws" using i by simp
    from nth_resources(1) [OF this, of newURL base] nth_resources(1) [OF i, of newURL base]
      assms(4) k
    show "resolveUrl newURL base (raw_raw (raws ! k)) \<noteq> resolveUrl newURL base (raw_raw (raws ! i))"
      by auto
  qed
  have "duplicateOf (resourcesFrom newURL base Map.empty 0 raws ! i) = None"
    using first by (intro dup_first [OF i]) simp_all
  moreover have "duplicateOf (resourcesFrom newURL base Map.empty 0 raws ! j)
      = Some (resourceKey (resolveUrl newURL base (raw_raw (raws ! i))) (raws ! i) (0 + i))"
    using first eq by (intro dup_later [OF assms(1,2)]) simp_all
  ultimately show ?thesis
    by (simp add: resources_def [symmetric] nth_resources(2) [OF i])
qed

text \<open>
  C1: the pass that builds \<open>resources\<close> marks every later occurrence of a resolved
  value with the id of the first one and leaves the first one unmarked
  (\<open>resources_duplicateOf\<close>). The final list does not keep this for probed entries: the merge
  \<open>Object.assign({}, r, found)\<close> copies every key of \<open>found\<close>, \<open>duplicateOf\<close> among them,
  and \<open>found\<close> is the result that was stored last under the URL. For two anchors to
  \<open>/about\<close>, both probed: when the second probe completes last, both final entries
  have \<open>duplicateOf\<close> set, the first occurrence too; when the first probe completes last,
  neither has it set.
\<close>

theorem C1_merge_overwrites_duplicateOf:
  "map duplicateOf (resources exURL exBase [exAbout, exAbout])
     = [None, Some ''https://example.com/about''] \<and>
   checkResources (toCheckLimited (resources exURL exBase [exAbout, exAbout]))
     [probeItem netOk 0 (resources exURL exBase [exAbout, exAbout] ! 0),
      probeItem netOk 0 (resources exURL exBase [exAbout, exAbout] ! 1)] \<and>
   map duplicateOf (finalResources (resources exURL exBase [exAbout, exAbout])
     [probeItem netOk 0 (resources exURL exBase [exAbout, exAbout] ! 0),
      probeItem netOk 0 (resources exURL exBase [exAbout, exAbout] ! 1)])
     = [Some ''https://example.com/about'', Some ''https://example.com/about''] \<and>
   checkResources (toCheckLimited (resources exURL exBase [exAbout, exAbout]))
     [probeItem netOk 0 (resources exURL exBase [exAbout, exAbout] ! 1),
      probeItem netOk 0 (resources exURL exBase [exAbout, exAbout] ! 0)] \<and>
   map duplicateOf (finalResources (resources exURL exBase [exAbout, exAbout])
     [probeItem netOk 0 (resources exURL exBase [exAbout, exAbout] ! 1),
      probeItem netOk 0 (resources exURL exBase [exAbout, exAbout] ! 0)])
     = [None, None] \<and>
   map resolved (finalResources (resources exURL exBase [exAbout, exAbout])
     [probeItem netOk 0 (resources exURL exBase [exAbout, exAbout] ! 1),
      probeItem netOk 0 (resources exURL exBase [exAbout, exAbout] ! 0)])
     = [Some ''https://example.com/about'', Some ''https://example.com/about'']"
proof -
  let ?rs = "resources exURL exBase [exAbout, exAbout]"
  have two: "?rs = [?rs ! 0, ?rs ! 1]" by (simp add: exTwoAbout_eq)
  have "checkResources ?rs (map (probeItem netOk 0) ?rs)"
    by (rule checkResources_in_order) blast
  then have "checkResources [?rs ! 0, ?rs ! 1] (map (probeItem netOk 0) [?rs ! 0, ?rs ! 1])"
    using two by simp
  then have run1: "checkResources (toCheckLimited ?rs) [probeItem netOk 0 (?rs ! 0), probeItem netOk 0 (?rs ! 1)]"
    using two by (simp add: exTwoAbout_toCheck)
  have "checkResources [?rs ! 0, ?rs ! 1] [probeItem netOk 0 (?rs ! 1), probeItem netOk 0 (?rs ! 0)]"
    by (rule checkResources_two_reversed)
  then have run2: "checkResources (toCheckLimited ?rs) [probeItem netOk 0 (?rs ! 1), probeItem netOk 0 (?rs ! 0)]"
    using two by (simp add: exTwoAbout_toCheck)
  have d0: "map duplicateOf ?rs = [None, Some ''https://example.com/about'']"
    by (simp add: exTwoAbout_eq)
  have d1: "map duplicateOf (finalResources ?rs [probeItem netOk 0 (?rs ! 0), probeItem netOk 0 (?rs ! 1)])
      = [Some ''https://example.com/about'', Some ''https://example.com/about'']"
    by (simp add: exTwoAbout_eq probe_netOk finalResources_def finalResource_def checkedMap_def
        truthy_def assignFound_def)
  have d2: "map duplicateOf (finalResources ?rs [probeItem netOk 0 (?rs ! 1), probeItem netOk 0 (?rs ! 0)])
      = [None, None]"
    by (simp add: exTwoAbout_eq probe_netOk finalResources_def finalResource_def checkedMap_def
        truthy_def assignFound_def)
  have d3: "map resolved (finalResources ?rs [probeItem netOk 0 (?rs ! 1), probeItem netOk 0 (?rs ! 0)])
      = [Some ''https://example.com/about'', Some ''https://example.com/about'']"
    by (simp add: exTwoAbout_eq probe_netOk finalResources_def finalResource_def checkedMap_def
        truthy_def assignFound_def)
  from d0 run1 d1 run2 d2 d3 show ?thesis by simp
qed

section \<open>The cap on checked resources\<close>










section \<open>HTTP error statuses and the broken count\<close>







section \<open>The average response time\<close>

lemma foldl_plus: "foldl (\<lambda>a b. a + b) a xs = a + sum_list xs" for a :: nat
  by (induction xs arbitrary: a) simp_all

lemma final_ok_hasTime:
  assumes ck: "checkResources (toCheckLimited rs) checked"
    and f: "f \<in> set (finalResources rs checked)" and ok: "status f = Ok"
  shows "hasTime f"
proof -
  from f obtain r where r: "f = finalResource (checkedMap checked) r"
    by (auto simp: finalResources_def)
  show ?thesis
  proof (cases "truthy (resolved r) \<and> \<not> skippable r")
    case False
    with r ok show ?thesis by (auto simp: finalResource_def)
  next
    case True
    show ?thesis
    proof (cases "checkedMap checked (resolved r)")
      case None
      with True r ok show ?thesis by (simp add: finalResource_def)
    next
      case (Some found)
      from checkedMap_Some [OF Some] have "found \<in> set checked" by simp
      with checkResources_sound [OF ck] have "hasTime found" by blast
      with Some True r show ?thesis by (simp add: finalResource_def assignFound_eq)
    qed
  qed
qed

lemma probe_netTimes:
  "probeItem netTimes now item =
     \<lparr>rid = rid item, rtype = rtype item, raw = raw item, resolved = resolved item,
      skippable = skippable item, duplicateOf = duplicateOf item,
      status = Ok, rnote = None, httpStatus = Val 200,
      timeMs = Val (if resolved item = Some ''https://example.com/about'' then 1 else 2),
      error = None, headers = Some []\<rparr>"
  by (simp add: probeItem_def assignData_def fetchWithHeadThenGet_def netTimes_def)

lemma exTwo_toCheck: "toCheckLimited exTwo = exTwo"
  by (simp add: exTwo_eq toCheckLimited_def toCheck_def truthy_def MAX_CHECK_def)

lemma exTwo_final:
  "finalResources exTwo (map (probeItem net now) exTwo) = map (probeItem net now) exTwo"
  by (simp add: exTwo_eq finalResources_def finalResource_def checkedMap_def truthy_def
      assignFound_eq probeItem_def assignData_def)

text \<open>
  C6 (amended): \<open>averageResponseMs\<close> is \<open>null\<close> exactly when no entry of the final list
  has status \<open>ok\<close>. Otherwise it is \<open>Math.round\<close> of the arithmetic mean of \<open>timeMs\<close>
  over exactly the entries with status \<open>ok\<close>: the mean rounded to the nearest integer,
  a half upwards, not the mean itself.
\<close>

theorem C6_average:
  assumes "checkResources (toCheckLimited rs) checked"
  shows "(avgResponse (finalResources rs checked) = None
           \<longleftrightarrow> filter (\<lambda>f. status f = Ok) (finalResources rs checked) = []) \<and>
    (filter (\<lambda>f. status f = Ok) (finalResources rs checked) \<noteq> [] \<longrightarrow>
       avgResponse (finalResources rs checked) =
         Some (Math_round
           (rat_of_nat (sum_list (map timeOf (filter (\<lambda>f. status f = Ok) (finalResources rs checked))))
             / rat_of_nat (length (filter (\<lambda>f. status f = Ok) (finalResources rs checked))))))"
proof -
  let ?fs = "finalResources rs checked"
  have "filter (\<lambda>r. hasTime r \<and> status r = Ok) ?fs = filter (\<lambda>f. status f = Ok) ?fs"
    by (rule filter_cong) (auto simp: final_ok_hasTime [OF assms])
  then have t: "okTimes ?fs = map timeOf (filter (\<lambda>f. status f = Ok) ?fs)"
    by (simp add: okTimes_def)
  show ?thesis
    by (simp add: avgResponse_def t Let_def foldl_plus)
qed

theorem C6_average_witness:
  "checkResources (toCheckLimited exTwo) (map (probeItem netOk 0) exTwo) \<and>
   map status (finalResources exTwo (map (probeItem netOk 0) exTwo)) = [Ok, Ok] \<and>
   map timeMs (finalResources exTwo (map (probeItem netOk 0) exTwo)) = [Val 50, Val 50] \<and>
   avgResponse (finalResources exTwo (map (probeItem netOk 0) exTwo)) = Some 50 \<and>
   checkResources (toCheckLimited []) [] \<and> avgResponse (finalResources [] []) = None"
proof -
  let ?ck = "map (probeItem netOk 0) exTwo"
  let ?fs = "finalResources exTwo ?ck"
  have "checkResources exTwo ?ck" by (rule checkResources_in_order) blast
  then have run: "checkResources (toCheckLimited exTwo) ?ck" by (simp add: exTwo_toCheck)
  have run0: "checkResources (toCheckLimited []) []"
    by (simp add: toCheckLimited_def toCheck_def checkResources_Nil)
  have fs: "?fs = ?ck" by (rule exTwo_final)
  have oks: "filter (\<lambda>f. status f = Ok) ?fs = ?ck"
    unfolding fs by (simp add: exTwo_eq probe_netOk)
  have st: "map status ?fs = [Ok, Ok]" "map timeMs ?fs = [Val 50, Val 50]"
    unfolding fs by (simp_all add: exTwo_eq probe_netOk)
  have sum: "sum_list (map timeOf ?ck) = 100" "length ?ck = 2" "?ck \<noteq> []"
    by (simp_all add: exTwo_eq probe_netOk timeOf_def)
  have mr: "Math_round (100 / 2) = 50" by code_simp
  have ne: "filter (\<lambda>f. status f = Ok) ?fs \<noteq> []" unfolding oks by (rule sum(3))
  from C6_average [OF run] ne
  have "avgResponse ?fs = Some (Math_round
      (rat_of_nat (sum_list (map timeOf (filter (\<lambda>f. status f = Ok) ?fs)))
        / rat_of_nat (length (filter (\<lambda>f. status f = Ok) ?fs))))"
    by blast
  then have "avgResponse ?fs = Some (Math_round (rat_of_nat 100 / rat_of_nat 2))"
    by (simp only: oks sum)
  then have "avgResponse ?fs = Some 50"
    using mr by simp
  moreover from C6_average [OF run0] have "avgResponse (finalResources [] []) = None"
    by (simp add: finalResources_def)
  ultimately show ?thesis using run run0 st by simp
qed

theorem C6_average_counterexample:
  "checkResources (toCheckLimited exTwo) (map (probeItem netTimes 0) exTwo) \<and>
   map status (finalResources exTwo (map (probeItem netTimes 0) exTwo)) = [Ok, Ok] \<and>
   map timeMs (finalResources exTwo (map (probeItem netTimes 0) exTwo)) = [Val 1, Val 2] \<and>
   avgResponse (finalResources exTwo (map (probeItem netTimes 0) exTwo)) = Some 2 \<and>
   rat_of_int 2 \<noteq> (rat_of_nat 1 + rat_of_nat 2) / rat_of_nat 2"
proof -
  let ?ck = "map (probeItem netTimes 0) exTwo"
  let ?fs = "finalResources exTwo ?ck"
  have "checkResources exTwo ?ck" by (rule checkResources_in_order) blast
  then have run: "checkResources (toCheckLimited exTwo) ?ck" by (simp add: exTwo_toCheck)
  have fs: "?fs = ?ck" by (rule exTwo_final)
  have st: "map status ?fs = [Ok, Ok]" "map timeMs ?fs = [Val 1, Val 2]"
    unfolding fs by (simp_all add: exTwo_eq probe_netTimes)
  have ot: "okTimes ?fs = [1, 2]"
    unfolding fs by (simp add: exTwo_eq probe_netTimes okTimes_def hasTime_def timeOf_def)
  have mr: "Math_round (3 / 2) = 2" by (simp add: Math_round_def)
  have avg: "avgResponse ?fs = Some 2"
    by (simp add: avgResponse_def ot mr)
  from run st avg show ?thesis by simp
qed

section \<open>Identifiers in the final list\<close>

lemma skip_opaque: "\<not> isSkippableHref ''anchor:http://[:0''" by code_simp
lemma key_bad_anchor0: "fallbackKey exBadAnchor 0 = ''anchor:http://[:0''" by code_simp

lemma exMixed_eq:
  "resources exURL exBase [exBadAnchor, exOpaque] =
   [\<lparr>rid = ''anchor:http://[:0'', rtype = Anchor, raw = ''http://['',
     resolved = None, skippable = False, duplicateOf = None\<rparr>,
    \<lparr>rid = ''anchor:http://[:0'', rtype = Anchor, raw = ''anchor:http://[:0'',
     resolved = Some ''anchor:http://[:0'', skippable = False, duplicateOf = None\<rparr>]"
proof -
  have r: "resolveUrl exURL exBase (raw_raw exBadAnchor) = None"
    "resolveUrl exURL exBase (raw_raw exOpaque) = Some ''anchor:http://[:0''"
    by (simp_all add: resolveUrl_def exURL_def exBase_def exBadAnchor_def exOpaque_def)
  have s: "\<not> isSkippableHref (raw_raw exBadAnchor)" "\<not> isSkippableHref (raw_raw exOpaque)"
    by (simp_all add: exBadAnchor_def exOpaque_def skip_bad skip_opaque)
  have f: "raw_raw exBadAnchor = ''http://[''" "raw_raw exOpaque = ''anchor:http://[:0''"
    "raw_type exBadAnchor = Anchor" "raw_type exOpaque = Anchor"
    by (simp_all add: exBadAnchor_def exOpaque_def)
  show ?thesis
    unfolding resources_def
    by (simp add: Let_def r s resourceKey_def truthy_def key_bad_anchor0) (simp add: f)
qed

lemma run_netOk:
  "checkResources (toCheckLimited rs) (map (probeItem netOk 0) (toCheckLimited rs))"
  by (rule checkResources_in_order) blast

text \<open>
  C3 (amended): the id of an entry of the final list is its resolved URL when that is
  truthy, and the fallback key \<open>type:raw:index\<close> otherwise. Hence two entries that both
  resolved have the same id exactly when they have the same resolved URL; two entries
  that both failed to resolve never have the same id; and an entry that resolved and one
  that did not have the same id exactly when the resolved URL of the one is, letter for
  letter, the fallback key of the other. Ids are not pairwise distinct for every input.
\<close>

theorem C3_ids:
  assumes "checkResources (toCheckLimited (resources newURL base raws)) checked"
    and "i < j" and "j < length raws"
  shows "rid (finalResources (resources newURL base raws) checked ! i)
      = (if truthy (resolved (finalResources (resources newURL base raws) checked ! i))
         then the (resolved (finalResources (resources newURL base raws) checked ! i))
         else fallbackKey (raws ! i) i) \<and>
    rid (finalResources (resources newURL base raws) checked ! j)
      = (if truthy (resolved (finalResources (resources newURL base raws) checked ! j))
         then the (resolved (finalResources (resources newURL base raws) checked ! j))
         else fallbackKey (raws ! j) j) \<and>
    (truthy (resolved (finalResources (resources newURL base raws) checked ! i)) \<and>
     truthy (resolved (finalResources (resources newURL base raws) checked ! j)) \<longrightarrow>
       (rid (finalResources (resources newURL base raws) checked ! i)
          = rid (finalResources (resources newURL base raws) checked ! j)
        \<longleftrightarrow> resolved (finalResources (resources newURL base raws) checked ! i)
          = resolved (finalResources (resources newURL base raws) checked ! j))) \<and>
    (\<not> truthy (resolved (finalResources (resources newURL base raws) checked ! i)) \<and>
     \<not> truthy (resolved (finalResources (resources newURL base raws) checked ! j)) \<longrightarrow>
       rid (finalResources (resources newURL base raws) checked ! i)
         \<noteq> rid (finalResources (resources newURL base raws) checked ! j)) \<and>
    (truthy (resolved (finalResources (resources newURL base raws) checked ! i)) \<and>
     \<not> truthy (resolved (finalResources (resources newURL base raws) checked ! j)) \<longrightarrow>
       (rid (finalResources (resources newURL base raws) checked ! i)
          = rid (finalResources (resources newURL base raws) checked ! j)
        \<longleftrightarrow> the (resolved (finalResources (resources newURL base raws) checked ! i))
          = fallbackKey (raws ! j) j)) \<and>
    (\<not> truthy (resolved (finalResources (resources newURL base raws) checked ! i)) \<and>
     truthy (resolved (finalResources (resources newURL base raws) checked ! j)) \<longrightarrow>
       (rid (finalResources (resources newURL base raws) checked ! i)
          = rid (finalResources (resources newURL base raws) checked ! j)
        \<longleftrightarrow> fallbackKey (raws ! i) i
          = the (resolved (finalResources (resources newURL base raws) checked ! j))))"
proof -
  let ?rs = "resources newURL base raws"
  let ?fs = "finalResources ?rs checked"
  from assms have i: "i < length raws" by simp
  note fi = final_id_resolved [OF assms(1) i] and fj = final_id_resolved [OF assms(1,3)]
  have ki: "rid (?fs ! i) = (if truthy (resolved (?fs ! i)) then the (resolved (?fs ! i))
      else fallbackKey (raws ! i) i)"
    using rid_truthy [OF i, of newURL base] rid_falsy [OF i, of newURL base] fi by simp
  have kj: "rid (?fs ! j) = (if truthy (resolved (?fs ! j)) then the (resolved (?fs ! j))
      else fallbackKey (raws ! j) j)"
    using rid_truthy [OF assms(3), of newURL base] rid_falsy [OF assms(3), of newURL base] fj by simp
  have ne: "fallbackKey (raws ! i) i \<noteq> fallbackKey (raws ! j) j"
    using fallbackKey_inj [of "raws ! i" i "raws ! j" j] assms(2) by auto
  have tt: "rid (?fs ! i) = rid (?fs ! j) \<longleftrightarrow> resolved (?fs ! i) = resolved (?fs ! j)"
    if "truthy (resolved (?fs ! i))" "truthy (resolved (?fs ! j))"
    using that ki kj by (simp add: truthy_the_eq)
  have ff: "rid (?fs ! i) \<noteq> rid (?fs ! j)"
    if "\<not> truthy (resolved (?fs ! i))" "\<not> truthy (resolved (?fs ! j))"
    using that ki kj ne by simp
  have tf: "rid (?fs ! i) = rid (?fs ! j) \<longleftrightarrow> the (resolved (?fs ! i)) = fallbackKey (raws ! j) j"
    if "truthy (resolved (?fs ! i))" "\<not> truthy (resolved (?fs ! j))"
    using that ki kj by simp
  have ft: "rid (?fs ! i) = rid (?fs ! j) \<longleftrightarrow> fallbackKey (raws ! i) i = the (resolved (?fs ! j))"
    if "\<not> truthy (resolved (?fs ! i))" "truthy (resolved (?fs ! j))"
    using that ki kj by simp
  from ki kj tt ff tf ft show ?thesis by blast
qed

theorem C3_ids_witness:
  "checkResources (toCheckLimited (resources exURL exBase [exAbout, exContact, exBadAnchor, exBadImage]))
     (map (probeItem netOk 0) (toCheckLimited (resources exURL exBase [exAbout, exContact, exBadAnchor, exBadImage]))) \<and>
   resolved (finalResources (resources exURL exBase [exAbout, exContact, exBadAnchor, exBadImage])
     (map (probeItem netOk 0) (toCheckLimited (resources exURL exBase [exAbout, exContact, exBadAnchor, exBadImage]))) ! 0)
     = Some ''https://example.com/about'' \<and>
   resolved (finalResources (resources exURL exBase [exAbout, exContact, exBadAnchor, exBadImage])
     (map (probeItem netOk 0) (toCheckLimited (resources exURL exBase [exAbout, exContact, exBadAnchor, exBadImage]))) ! 1)
     = Some ''https://example.com/contact'' \<and>
   resolved (finalResources (resources exURL exBase [exAbout, exContact, exBadAnchor, exBadImage])
     (map (probeItem netOk 0) (toCheckLimited (resources exURL exBase [exAbout, exContact, exBadAnchor, exBadImage]))) ! 2)
     = None \<and>
   resolved (finalResources (resources exURL exBase [exAbout, exContact, exBadAnchor, exBadImage])
     (map (probeItem netOk 0) (toCheckLimited (resources exURL exBase [exAbout, exContact, exBadAnchor, exBadImage]))) ! 3)
     = None \<and>
   rid (finalResources (resources exURL exBase [exAbout, exContact, exBadAnchor, exBadImage])
     (map (probeItem netOk 0) (toCheckLimited (resources exURL exBase [exAbout, exContact, exBadAnchor, exBadImage]))) ! 0)
     = ''https://example.com/about'' \<and>
   rid (finalResources (resources exURL exBase [exAbout, exContact, exBadAnchor, exBadImage])
     (map (probeItem netOk 0) (toCheckLimited (resources exURL exBase [exAbout, exContact, exBadAnchor, exBadImage]))) ! 1)
     = ''https://example.com/contact'' \<and>
   rid (finalResources (resources exURL exBase [exAbout, exContact, exBadAnchor, exBadImage])
     (map (probeItem netOk 0) (toCheckLimited (resources exURL exBase [exAbout, exContact, exBadAnchor, exBadImage]))) ! 2)
     = ''anchor:http://[:2'' \<and>
   rid (finalResources (resources exURL exBase [exAbout, exContact, exBadAnchor, exBadImage])
     (map (probeItem netOk 0) (toCheckLimited (resources exURL exBase [exAbout, exContact, exBadAnchor, exBadImage]))) ! 3)
     = ''image:http://[:3''"
proof -
  let ?raws = "[exAbout, exContact, exBadAnchor, exBadImage]"
  let ?rs = "resources exURL exBase ?raws"
  let ?ck = "map (probeItem netOk 0) (toCheckLimited ?rs)"
  let ?fs = "finalResources ?rs ?ck"
  have run: "checkResources (toCheckLimited ?rs) ?ck" by (rule run_netOk)
  have a: "(0::nat) < 1" "1 < length ?raws" "(2::nat) < 3" "3 < length ?raws" by simp_all
  have res: "resolved (?fs ! 0) = Some ''https://example.com/about''"
    "resolved (?fs ! 1) = Some ''https://example.com/contact''"
    "resolved (?fs ! 2) = None" "resolved (?fs ! 3) = None"
    using final_id_resolved(2) [OF run, of 0] final_id_resolved(2) [OF run, of 1]
      final_id_resolved(2) [OF run, of 2] final_id_resolved(2) [OF run, of 3]
    by (simp_all add: exFour_eq)
  have k: "fallbackKey (?raws ! 2) 2 = ''anchor:http://[:2''"
    "fallbackKey (?raws ! 3) 3 = ''image:http://[:3''"
    by (simp_all add: key_bad_anchor key_bad_image)
  from C3_ids [OF run a(1,2)] res have ids01: "rid (?fs ! 0) = ''https://example.com/about''"
    "rid (?fs ! 1) = ''https://example.com/contact''"
    by (simp_all add: truthy_def)
  from C3_ids [OF run a(3,4)] res k have ids23: "rid (?fs ! 2) = ''anchor:http://[:2''"
    "rid (?fs ! 3) = ''image:http://[:3''"
    by (simp_all add: truthy_def)
  from run res ids01 ids23 show ?thesis by blast
qed

theorem C3_ids_counterexample:
  "checkResources (toCheckLimited (resources exURL exBase [exAbout, exAbout]))
     (map (probeItem netOk 0) (toCheckLimited (resources exURL exBase [exAbout, exAbout]))) \<and>
   map rid (finalResources (resources exURL exBase [exAbout, exAbout])
     (map (probeItem netOk 0) (toCheckLimited (resources exURL exBase [exAbout, exAbout]))))
     = [''https://example.com/about'', ''https://example.com/about''] \<and>
   checkResources (toCheckLimited (resources exURL exBase [exBadAnchor, exOpaque]))
     (map (probeItem netOk 0) (toCheckLimited (resources exURL exBase [exBadAnchor, exOpaque]))) \<and>
   map resolved (finalResources (resources exURL exBase [exBadAnchor, exOpaque])
     (map (probeItem netOk 0) (toCheckLimited (resources exURL exBase [exBadAnchor, exOpaque]))))
     = [None, Some ''anchor:http://[:0''] \<and>
   map rid (finalResources (resources exURL exBase [exBadAnchor, exOpaque])
     (map (probeItem netOk 0) (toCheckLimited (resources exURL exBase [exBadAnchor, exOpaque]))))
     = [''anchor:http://[:0'', ''anchor:http://[:0'']"
proof -
  have a: "map rid (finalResources (resources exURL exBase [exAbout, exAbout])
     (map (probeItem netOk 0) (toCheckLimited (resources exURL exBase [exAbout, exAbout]))))
     = [''https://example.com/about'', ''https://example.com/about'']"
    by (simp add: exTwoAbout_toCheck)
      (simp add: exTwoAbout_eq probe_netOk finalResources_def finalResource_def checkedMap_def
        truthy_def assignFound_def)
  have t: "toCheckLimited (resources exURL exBase [exBadAnchor, exOpaque])
      = [resources exURL exBase [exBadAnchor, exOpaque] ! 1]"
    by (simp add: exMixed_eq toCheckLimited_def toCheck_def truthy_def MAX_CHECK_def)
  have b: "map resolved (finalResources (resources exURL exBase [exBadAnchor, exOpaque])
     (map (probeItem netOk 0) (toCheckLimited (resources exURL exBase [exBadAnchor, exOpaque]))))
     = [None, Some ''anchor:http://[:0'']"
    "map rid (finalResources (resources exURL exBase [exBadAnchor, exOpaque])
     (map (probeItem netOk 0) (toCheckLimited (resources exURL exBase [exBadAnchor, exOpaque]))))
     = [''anchor:http://[:0'', ''anchor:http://[:0'']"
    unfolding t
    by (simp_all add: exMixed_eq probe_netOk finalResources_def finalResource_def checkedMap_def
        truthy_def assignFound_def assignStatus_def)
  from a b run_netOk show ?thesis by simp
qed

end
